theory Spec2Isabelle
  imports Complex_Main "HOL-Library.Multiset" "HOL-Library.Log_Nat"
begin

section \<open>Strings and numbers of the host language\<close>

text \<open>
  The tools are TypeScript components. Strings are modelled as \<open>string\<close>. Page numbers
  and counts are modelled as \<open>nat\<close> and \<open>int\<close>; the host's floating-point numbers
  agree with them below \<open>2 ^ 53\<close>. Where the host divides and multiplies (the progress
  percentages), its binary floating-point arithmetic is modelled, see \<open>to_double\<close>.
\<close>

definition digit_char :: "nat \<Rightarrow> char" where
  "digit_char d = char_of (48 + d)"

text \<open>Template-literal rendering \<open>`${n}`\<close> of a non-negative integer: decimal, no padding.\<close>

fun show_nat :: "nat \<Rightarrow> string" where
  "show_nat n = (if n < 10 then [digit_char n] else show_nat (n div 10) @ [digit_char (n mod 10)])"

declare show_nat.simps [simp del]

text \<open>The white space that \<open>String.prototype.trim\<close> and \<open>parseInt\<close> strip (its ASCII part).\<close>

definition is_space :: "char \<Rightarrow> bool" where
  "is_space c \<longleftrightarrow> c \<in> set [CHR 0x09, CHR 0x0A, CHR 0x0B, CHR 0x0C, CHR 0x0D, CHR 0x20]"

definition trim :: "string \<Rightarrow> string" where
  "trim s = rev (dropWhile is_space (rev (dropWhile is_space s)))"

text \<open>\<open>s.split(c)\<close> for a one-character separator: never empty, keeps empty pieces.\<close>

fun split_on :: "char \<Rightarrow> string \<Rightarrow> string list" where
  "split_on c [] = [[]]"
| "split_on c (x # xs) =
     (if x = c then [] # split_on c xs
      else (case split_on c xs of [] \<Rightarrow> [[x]] | p # ps \<Rightarrow> (x # p) # ps))"

text \<open>\<open>parts.join(sep)\<close>.\<close>

fun join :: "string \<Rightarrow> string list \<Rightarrow> string" where
  "join sep [] = []"
| "join sep [p] = p"
| "join sep (p # q # ps) = p @ sep @ join sep (q # ps)"

text \<open>
  The value of a digit in a radix (10 or 16), \<open>None\<close> for a character that is no digit
  of that radix.
\<close>

definition digit_of :: "nat \<Rightarrow> char \<Rightarrow> nat option" where
  "digit_of radix c =
     (let n = (of_char c :: nat) in
      if 48 \<le> n \<and> n \<le> 57 then Some (n - 48)
      else if radix = 16 \<and> 97 \<le> n \<and> n \<le> 102 then Some (n - 87)
      else if radix = 16 \<and> 65 \<le> n \<and> n \<le> 70 then Some (n - 55)
      else None)"

definition digits_value :: "nat \<Rightarrow> string \<Rightarrow> nat" where
  "digits_value radix ds = foldl (\<lambda>acc c. acc * radix + (case digit_of radix c of Some d \<Rightarrow> d | None \<Rightarrow> 0)) 0 ds"

text \<open>
  \<open>parseInt(s)\<close> without a radix: leading white space is skipped, a sign is read, a
  \<open>0x\<close> prefix selects radix 16, and the longest prefix of digits is the value; \<open>None\<close> is
  \<open>NaN\<close> (no digit at all). Whatever follows the digits is ignored.
\<close>

definition parse_digits :: "nat \<Rightarrow> string \<Rightarrow> int option" where
  "parse_digits radix s =
     (let ds = takeWhile (\<lambda>c. digit_of radix c \<noteq> None) s
      in if ds = [] then None else Some (int (digits_value radix ds)))"

definition parse_unsigned :: "string \<Rightarrow> int option" where
  "parse_unsigned s =
     (case s of
        c0 # c1 # rest \<Rightarrow>
          if c0 = CHR ''0'' \<and> (c1 = CHR ''x'' \<or> c1 = CHR ''X'')
          then parse_digits 16 rest else parse_digits 10 s
      | _ \<Rightarrow> parse_digits 10 s)"

definition parseInt :: "string \<Rightarrow> int option" where
  "parseInt s =
     (case dropWhile is_space s of
        [] \<Rightarrow> None
      | c # rest \<Rightarrow>
          if c = CHR ''-'' then map_option uminus (parse_unsigned rest)
          else if c = CHR ''+'' then parse_unsigned rest
          else parse_unsigned (c # rest))"

section \<open>Page selection (SplitPDF.tsx)\<close>

text \<open>
  A \<open>Set<number>\<close> of the host language keeps its elements in insertion order and without
  duplicates. It is modelled as the list of its elements in that order; \<open>Array.from\<close> is
  then the identity.
\<close>

type_synonym js_set = "nat list"

definition set_add :: "nat \<Rightarrow> js_set \<Rightarrow> js_set" where
  "set_add x s = (if x \<in> set s then s else s @ [x])"

definition set_delete :: "nat \<Rightarrow> js_set \<Rightarrow> js_set" where
  "set_delete x s = removeAll x s"

subsection \<open>From the index set to the range text: \<open>updateRangeFromSet\<close>\<close>

text \<open>One token: \<open>start === end ? `${start + 1}` : `${start + 1}-${end + 1}`\<close>.\<close>

definition range_token :: "nat \<Rightarrow> nat \<Rightarrow> string" where
  "range_token start end' =
     (if start = end' then show_nat (start + 1)
      else show_nat (start + 1) @ ''-'' @ show_nat (end' + 1))"

text \<open>
  The loop over \<open>sorted[1..]\<close> with its three variables \<open>ranges\<close>, \<open>start\<close>, \<open>end\<close>, and
  the final push after the loop.
\<close>

fun range_loop :: "string list \<Rightarrow> nat \<Rightarrow> nat \<Rightarrow> nat list \<Rightarrow> string list" where
  "range_loop ranges start end' [] = ranges @ [range_token start end']"
| "range_loop ranges start end' (x # xs) =
     (if x = end' + 1 then range_loop ranges start x xs
      else range_loop (ranges @ [range_token start end']) x x xs)"

text \<open>The text that \<open>updateRangeFromSet(set)\<close> passes to \<open>setRangeText\<close>.\<close>

definition range_text_of :: "js_set \<Rightarrow> string" where
  "range_text_of s =
     (case sort s of
        [] \<Rightarrow> []
      | first # rest \<Rightarrow> join '', '' (range_loop [] first first rest))"

subsection \<open>From the range text to indices: \<open>parseRangeText\<close>\<close>

text \<open>The body of the \<open>for\<close> loop of a range token: \<open>if (i > 0 && i <= max) pages.add(i - 1)\<close>.\<close>

definition add_page :: "nat \<Rightarrow> js_set \<Rightarrow> int \<Rightarrow> js_set" where
  "add_page max' pages i = (if 0 < i \<and> i \<le> int max' then set_add (nat (i - 1)) pages else pages)"

text \<open>
  One \<open>forEach\<close> step. A part with a hyphen is split on hyphens and its first two pieces
  are read with \<open>parseInt\<close> (a missing piece is \<open>undefined\<close>, which \<open>parseInt\<close> turns into
  \<open>NaN\<close>); any other part is read as one page number.
\<close>

definition parse_part :: "nat \<Rightarrow> js_set \<Rightarrow> string \<Rightarrow> js_set" where
  "parse_part max' pages part =
     (if CHR ''-'' \<in> set part then
        (case map parseInt (split_on CHR ''-'' part) of
           Some start # Some end' # _ \<Rightarrow>
             foldl (add_page max') pages [min start end' .. max start end']
         | _ \<Rightarrow> pages)
      else
        (case parseInt part of
           Some page \<Rightarrow> add_page max' pages page
         | None \<Rightarrow> pages))"

definition parseRangeText :: "string \<Rightarrow> nat \<Rightarrow> nat list" where
  "parseRangeText text' max' =
     sort (foldl (parse_part max') [] (map trim (split_on CHR '','' text')))"

text \<open>
  The pairs \<open>(start, end)\<close> of the tokens that \<open>range_loop\<close> pushes, in order (the loop
  with the formatting taken out; used to reason about the loop).
\<close>

fun runs :: "nat \<Rightarrow> nat \<Rightarrow> nat list \<Rightarrow> (nat \<times> nat) list" where
  "runs start end' [] = [(start, end')]"
| "runs start end' (x # xs) =
     (if x = end' + 1 then runs start x xs else (start, end') # runs x x xs)"

definition token_of :: "nat \<times> nat \<Rightarrow> string" where
  "token_of r = range_token (fst r) (snd r)"

definition is_dec :: "char \<Rightarrow> bool" where
  "is_dec c \<longleftrightarrow> 48 \<le> (of_char c :: nat) \<and> (of_char c :: nat) \<le> 57"

section \<open>Files, documents and the outside world\<close>

text \<open>A \<open>File\<close> handed over by the browser: name, size in bytes, MIME type, and its bytes
  (identified by a number).\<close>

record js_file =
  file_name :: string
  file_size :: nat
  file_type :: string
  file_bytes :: nat

text \<open>
  A page of a document of the PDF library: what it shows (identified by a number), its
  size, its rotation in degrees and the texts drawn on it so far. Lengths and coordinates
  are rationals here; the host computes them in binary floating point.
\<close>

record drawn_text =
  dt_text :: string
  dt_x :: rat
  dt_y :: rat
  dt_size :: rat
  dt_color :: "rat \<times> rat \<times> rat"

record page =
  page_content :: nat
  page_width :: rat
  page_height :: rat
  page_rotation :: int
  page_texts :: "drawn_text list"

text \<open>
  The external libraries, as far as the tools use them: \<open>getDocument\<close> of the rendering
  library (the page count, or a rejection), the rendering of page \<open>i\<close> to a thumbnail
  (which may fail too), \<open>PDFDocument.load\<close> of the PDF library (the pages, or a
  rejection), the width of a text in the embedded font, the blank page that \<open>save()\<close> of
  the PDF library adds to a document without pages (its option \<open>addDefaultPage\<close>, on
  unless switched off), and the display form of a size (\<open>formatSize\<close>, floating-point
  arithmetic that no property here depends on).
\<close>

record env =
  getDocument :: "js_file \<Rightarrow> nat option"
  renderPage :: "js_file \<Rightarrow> nat \<Rightarrow> string option"
  pdfLoad :: "js_file \<Rightarrow> page list option"
  widthOfTextAtSize :: "string \<Rightarrow> rat \<Rightarrow> rat"
  blankPage :: page
  formatSize :: "nat \<Rightarrow> string"

text \<open>What a tool saves: one document, or an archive of named documents.\<close>

datatype blob = PdfDoc "page list" | Zip "(string \<times> page list) list"

text \<open>
  \<open>doc.save()\<close>: the pages of the saved file. A document without pages is saved with one
  blank page. (The split and rotate tools save documents that have a page; only the merged
  document can be without one.)
\<close>

definition pdf_save :: "env \<Rightarrow> page list \<Rightarrow> page list" where
  "pdf_save env pages = (if pages = [] then [blankPage env] else pages)"

text \<open>
  The effects of a handler on its surroundings: the object URLs that are alive, the
  number of URLs created so far, the downloads triggered by \<open>link.click()\<close>, the alert
  boxes, the files whose bytes were handed to a codec, and the values passed to the
  progress setter, each in order of occurrence.
\<close>

record world =
  liveURLs :: "nat list"
  urlCount :: nat
  downloads :: "(string \<times> blob) list"
  alerts :: "string list"
  decodes :: "js_file list"
  reported :: "nat list"

definition createObjectURL :: "world \<Rightarrow> nat \<times> world" where
  "createObjectURL w =
     (urlCount w, w\<lparr>liveURLs := liveURLs w @ [urlCount w], urlCount := urlCount w + 1\<rparr>)"

definition revokeObjectURL :: "nat \<Rightarrow> world \<Rightarrow> world" where
  "revokeObjectURL url w = w\<lparr>liveURLs := removeAll url (liveURLs w)\<rparr>"

text \<open>\<open>link.href = url; link.download = filename; link.click()\<close>.\<close>

definition click_link :: "string \<Rightarrow> blob \<Rightarrow> world \<Rightarrow> world" where
  "click_link filename b w = w\<lparr>downloads := downloads w @ [(filename, b)]\<rparr>"

definition report :: "nat \<Rightarrow> world \<Rightarrow> world" where
  "report v w = w\<lparr>reported := reported w @ [v]\<rparr>"

definition decode_call :: "js_file \<Rightarrow> world \<Rightarrow> world" where
  "decode_call f w = w\<lparr>decodes := decodes w @ [f]\<rparr>"

definition alert :: "string \<Rightarrow> world \<Rightarrow> world" where
  "alert msg w = w\<lparr>alerts := alerts w @ [msg]\<rparr>"

text \<open>
  The host's numbers are IEEE 754 double-precision numbers: a division or a multiplication
  gives the exact result rounded to the nearest number with a 53-bit significand, ties to
  the even significand. \<open>exponent_of x\<close> is the \<open>e\<close> with \<open>2 ^ e \<le> x < 2 ^ (e + 1)\<close> for a
  positive \<open>x\<close>, and \<open>to_double\<close> is the rounding (exponents are not bounded here; the
  numbers of the tools are far from overflow and underflow).
\<close>

definition exponent_of :: "rat \<Rightarrow> int" where
  "exponent_of x =
     (case quotient_of x of
        (p, q) \<Rightarrow> (let e0 = bitlen p - bitlen q in if 2 powi e0 \<le> x then e0 else e0 - 1))"

definition round_half_even :: "rat \<Rightarrow> int" where
  "round_half_even q =
     (let f = \<lfloor>q\<rfloor>; r = q - of_int f in
      if r < 1 / 2 then f else if 1 / 2 < r then f + 1 else if even f then f else f + 1)"

definition to_double :: "rat \<Rightarrow> rat" where
  "to_double x =
     (if x = 0 then 0
      else (let u = 2 powi (exponent_of \<bar>x\<bar> - 52) in of_int (round_half_even (x / u)) * u))"

text \<open>\<open>Math.round\<close>: the nearest integer, a tie goes up.\<close>

definition js_round :: "rat \<Rightarrow> int" where
  "js_round x = \<lfloor>x + 1 / 2\<rfloor>"

text \<open>
  \<open>Math.round((k / n) * budget)\<close>, with the quotient and the product rounded as the host
  rounds them. (The loops call it with \<open>1 \<le> k \<le> n\<close> only.)
\<close>

definition percent_of :: "nat \<Rightarrow> nat \<Rightarrow> nat \<Rightarrow> nat" where
  "percent_of k n budget =
     nat (js_round (to_double (to_double (of_nat k / of_nat n) * of_nat budget)))"

text \<open>
  \<open>newPdf.copyPages(source, indices)\<close>: the pages at the indices, in the order of the
  indices; an index outside the source makes the library throw.
\<close>

definition copyPages :: "page list \<Rightarrow> nat list \<Rightarrow> page list option" where
  "copyPages source indices =
     (if list_all (\<lambda>i. i < length source) indices then Some (map (\<lambda>i. source ! i) indices) else None)"

text \<open>
  The user-visible errors. The source shows messages; they are named after the error they
  report: \<open>FileTooLarge\<close> is ``File is too large for browser processing ...'',
  \<open>UnreadableDocument\<close> is ``Could not load PDF. It might be corrupted or protected.'',
  \<open>EmptySelection\<close> is ``Please select at least one page to extract.'' (``... to rotate.''),
  \<open>TransformFailed\<close> is ``An error occurred during splitting.'' (``... during rotation.'').
\<close>

datatype tool_error = FileTooLarge | UnreadableDocument | EmptySelection | TransformFailed

record pdf_metadata =
  pm_name :: string
  pm_size :: string
  pm_pageCount :: nat
  pm_file :: js_file

section \<open>The split tool (SplitPDF.tsx)\<close>

datatype split_mode = RangeMode | AllMode

text \<open>The component state of \<open>SplitPDF\<close>, one field for each \<open>useState\<close>.\<close>

record split_state =
  pdfInfo :: "pdf_metadata option"
  splitMode :: split_mode
  selectedPages :: js_set
  rangeText :: string
  thumbnails :: "string list"
  isProcessing :: bool
  progress :: nat
  error :: "tool_error option"

definition setProgress :: "nat \<Rightarrow> split_state \<times> world \<Rightarrow> split_state \<times> world" where
  "setProgress v sw = (case sw of (s, w) \<Rightarrow> (s\<lparr>progress := v\<rparr>, report v w))"

subsection \<open>Selection handlers\<close>

definition updateRangeFromSet :: "js_set \<Rightarrow> split_state \<Rightarrow> split_state" where
  "updateRangeFromSet set' s = s\<lparr>rangeText := range_text_of set'\<rparr>"

definition togglePage :: "nat \<Rightarrow> split_state \<Rightarrow> split_state" where
  "togglePage index s =
     (let newSet = (if index \<in> set (selectedPages s) then set_delete index (selectedPages s)
                    else set_add index (selectedPages s))
      in updateRangeFromSet newSet (s\<lparr>selectedPages := newSet\<rparr>))"

definition selectAll :: "split_state \<Rightarrow> split_state" where
  "selectAll s =
     (case pdfInfo s of
        None \<Rightarrow> s
      | Some info \<Rightarrow>
          (let all = foldl (\<lambda>acc i. set_add i acc) [] [0 ..< pm_pageCount info]
           in updateRangeFromSet all (s\<lparr>selectedPages := all\<rparr>)))"

definition clearSelection :: "split_state \<Rightarrow> split_state" where
  "clearSelection s = s\<lparr>selectedPages := [], rangeText := []\<rparr>"

text \<open>The \<open>onChange\<close> handler of the range input: \<open>setRangeText(e.target.value)\<close>.\<close>

definition editRangeText :: "string \<Rightarrow> split_state \<Rightarrow> split_state" where
  "editRangeText v s = s\<lparr>rangeText := v\<rparr>"

text \<open>The ``Clear'' button next to the title: \<open>setPdfInfo(null)\<close>.\<close>

definition clearDocument :: "split_state \<Rightarrow> split_state" where
  "clearDocument s = s\<lparr>pdfInfo := None\<rparr>"

subsection \<open>Loading a document: \<open>handleFileChange\<close>\<close>

text \<open>
  The thumbnail loop, \<open>i = 1 .. min(numPages, 50)\<close>: a page that cannot be rendered
  throws and leaves the loop; otherwise the thumbnail is pushed and progress reported.
\<close>

fun thumb_loop ::
  "(nat \<Rightarrow> string option) \<Rightarrow> nat \<Rightarrow> nat list \<Rightarrow> string list \<Rightarrow> split_state \<times> world
     \<Rightarrow> string list option \<times> (split_state \<times> world)" where
  "thumb_loop render limit [] thumbs sw = (Some thumbs, sw)"
| "thumb_loop render limit (i # rest) thumbs sw =
     (case render i of
        None \<Rightarrow> (None, sw)
      | Some t \<Rightarrow> thumb_loop render limit rest (thumbs @ [t]) (setProgress (percent_of i limit 100) sw))"

definition handleFileChange ::
  "env \<Rightarrow> js_file option \<Rightarrow> split_state \<Rightarrow> world \<Rightarrow> split_state \<times> world" where
  "handleFileChange env picked s w =
     (case picked of
        None \<Rightarrow> (s, w)
      | Some file \<Rightarrow>
          if file_type file \<noteq> ''application/pdf'' then (s, w)
          else if file_size file > 100 * 1024 * 1024 then (s\<lparr>error := Some FileTooLarge\<rparr>, w)
          else
            (let s1 = s\<lparr>isProcessing := True, error := None, thumbnails := [],
                        selectedPages := [], rangeText := []\<rparr>;
                 w1 = decode_call file w;
                 tried =
                   (case getDocument env file of
                      None \<Rightarrow> (s1\<lparr>error := Some UnreadableDocument\<rparr>, w1)
                    | Some numPages \<Rightarrow>
                        (let s2 = s1\<lparr>pdfInfo := Some \<lparr>pm_name = file_name file,
                                     pm_size = formatSize env (file_size file),
                                     pm_pageCount = numPages, pm_file = file\<rparr>\<rparr>;
                             limit = min numPages 50
                         in case thumb_loop (renderPage env file) limit [1 ..< limit + 1] [] (s2, w1) of
                              (None, (s3, w3)) \<Rightarrow> (s3\<lparr>error := Some UnreadableDocument\<rparr>, w3)
                            | (Some thumbs, (s3, w3)) \<Rightarrow> (s3\<lparr>thumbnails := thumbs\<rparr>, w3)))
             in setProgress 0 (fst tried\<lparr>isProcessing := False\<rparr>, snd tried)))"

subsection \<open>Exporting: \<open>downloadBlob\<close> and \<open>handleSplit\<close>\<close>

definition downloadBlob :: "blob \<Rightarrow> string \<Rightarrow> world \<Rightarrow> world" where
  "downloadBlob b filename w =
     (case createObjectURL w of (url, w1) \<Rightarrow> revokeObjectURL url (click_link filename b w1))"

text \<open>\<open>zip.file(name, data)\<close>: replaces the entry of that name, or adds one at the end.\<close>

fun zip_file :: "string \<Rightarrow> page list \<Rightarrow> (string \<times> page list) list \<Rightarrow> (string \<times> page list) list" where
  "zip_file name' d [] = [(name', d)]"
| "zip_file name' d (e # es) = (if fst e = name' then (name', d) # es else e # zip_file name' d es)"

text \<open>\<open>s.replace(pat, rep)\<close> with a string pattern: the first occurrence only.\<close>

fun replace_first :: "string \<Rightarrow> string \<Rightarrow> string \<Rightarrow> string" where
  "replace_first pat rep [] = (if pat = [] then rep else [])"
| "replace_first pat rep (c # cs) =
     (if take (length pat) (c # cs) = pat then rep @ drop (length pat) (c # cs)
      else c # replace_first pat rep cs)"

text \<open>The burst loop, \<open>i = 0 .. pageCount - 1\<close>, one single-page document per page.\<close>

fun burst_loop ::
  "page list \<Rightarrow> nat \<Rightarrow> nat list \<Rightarrow> (string \<times> page list) list \<Rightarrow> split_state \<times> world
     \<Rightarrow> (string \<times> page list) list option \<times> (split_state \<times> world)" where
  "burst_loop sourcePdf pageCount [] zip' sw = (Some zip', sw)"
| "burst_loop sourcePdf pageCount (i # rest) zip' sw =
     (case copyPages sourcePdf [i] of
        None \<Rightarrow> (None, sw)
      | Some pages \<Rightarrow>
          burst_loop sourcePdf pageCount rest
            (zip_file (''Page_'' @ show_nat (i + 1) @ ''.pdf'') pages zip')
            (setProgress (percent_of (i + 1) pageCount 100) sw))"

text \<open>
  The indices that the extraction copies: the parsed range text if there is one,
  otherwise the selected set as an array.
\<close>

definition resolved_indices :: "pdf_metadata \<Rightarrow> split_state \<Rightarrow> nat list" where
  "resolved_indices info s =
     (if rangeText s \<noteq> [] then parseRangeText (rangeText s) (pm_pageCount info)
      else selectedPages s)"

text \<open>
  \<open>handleSplit\<close> from \<open>setIsProcessing(true)\<close> to the end of its \<open>try\<close>/\<open>catch\<close>: the job.
\<close>

definition split_job :: "env \<Rightarrow> pdf_metadata \<Rightarrow> split_state \<Rightarrow> world \<Rightarrow> split_state \<times> world" where
  "split_job env info s w =
     (case setProgress 0 (s\<lparr>isProcessing := True\<rparr>, w) of
        (s0, w0) \<Rightarrow>
          (let s1 = s0\<lparr>error := None\<rparr>; w1 = decode_call (pm_file info) w0 in
           case pdfLoad env (pm_file info) of
             None \<Rightarrow> (s1\<lparr>error := Some TransformFailed\<rparr>, w1)
           | Some sourcePdf \<Rightarrow>
               (case splitMode s of
                  RangeMode \<Rightarrow>
                    (let indices = resolved_indices info s in
                     if indices = [] then (s1\<lparr>error := Some EmptySelection, isProcessing := False\<rparr>, w1)
                     else
                       (case copyPages sourcePdf indices of
                          None \<Rightarrow> (s1\<lparr>error := Some TransformFailed\<rparr>, w1)
                        | Some copiedPages \<Rightarrow>
                            setProgress 100
                              (s1, downloadBlob (PdfDoc copiedPages) (''Extracted_'' @ pm_name info) w1)))
                | AllMode \<Rightarrow>
                    (case burst_loop sourcePdf (pm_pageCount info) [0 ..< pm_pageCount info] [] (s1, w1) of
                       (None, (s2, w2)) \<Rightarrow> (s2\<lparr>error := Some TransformFailed\<rparr>, w2)
                     | (Some zip', (s2, w2)) \<Rightarrow>
                         (s2, downloadBlob (Zip zip')
                                (replace_first ''.pdf'' [] (pm_name info) @ ''_individual_pages.zip'') w2)))))"

text \<open>The timer started in \<open>finally\<close>, 500 ms after the job: the indicator is reset.\<close>

definition split_cleanup :: "split_state \<times> world \<Rightarrow> split_state \<times> world" where
  "split_cleanup sw = (case sw of (s, w) \<Rightarrow> setProgress 0 (s\<lparr>isProcessing := False\<rparr>, w))"

definition handleSplit :: "env \<Rightarrow> split_state \<Rightarrow> world \<Rightarrow> split_state \<times> world" where
  "handleSplit env s w =
     (case pdfInfo s of
        None \<Rightarrow> (s, w)
      | Some info \<Rightarrow> split_cleanup (split_job env info s w))"

section \<open>The rotate tool (the \<open>RotatePDF\<close> component)\<close>

record rotate_state =
  r_pdfInfo :: "pdf_metadata option"
  r_selectedPages :: js_set
  r_thumbnails :: "string list"
  r_isProcessing :: bool
  rotationProgress :: nat
  r_error :: "tool_error option"

text \<open>The thumbnail loop of the rotate tool reports no progress.\<close>

fun rotate_thumb_loop :: "(nat \<Rightarrow> string option) \<Rightarrow> nat list \<Rightarrow> string list \<Rightarrow> string list option" where
  "rotate_thumb_loop render [] thumbs = Some thumbs"
| "rotate_thumb_loop render (i # rest) thumbs =
     (case render i of
        None \<Rightarrow> None
      | Some t \<Rightarrow> rotate_thumb_loop render rest (thumbs @ [t]))"

definition rotate_handleFileChange ::
  "env \<Rightarrow> js_file option \<Rightarrow> rotate_state \<Rightarrow> world \<Rightarrow> rotate_state \<times> world" where
  "rotate_handleFileChange env picked s w =
     (case picked of
        None \<Rightarrow> (s, w)
      | Some file \<Rightarrow>
          if file_type file \<noteq> ''application/pdf'' then (s, w)
          else
            (let s1 = s\<lparr>r_isProcessing := True, r_error := None, r_thumbnails := [],
                        r_selectedPages := []\<rparr>;
                 w1 = decode_call file w;
                 s4 =
                   (case getDocument env file of
                      None \<Rightarrow> s1\<lparr>r_error := Some UnreadableDocument\<rparr>
                    | Some numPages \<Rightarrow>
                        (let s2 = s1\<lparr>r_pdfInfo := Some \<lparr>pm_name = file_name file,
                                     pm_size = formatSize env (file_size file),
                                     pm_pageCount = numPages, pm_file = file\<rparr>\<rparr>;
                             limit = min numPages 50
                         in case rotate_thumb_loop (renderPage env file) [1 ..< limit + 1] [] of
                              None \<Rightarrow> s2\<lparr>r_error := Some UnreadableDocument\<rparr>
                            | Some thumbs \<Rightarrow> s2\<lparr>r_thumbnails := thumbs\<rparr>))
             in (s4\<lparr>r_isProcessing := False\<rparr>, w1)))"

text \<open>The ``Clear'' button of the rotate tool (JPGToPDF.tsx:370): \<open>setPdfInfo(null)\<close>.\<close>

definition rotate_clearDocument :: "rotate_state \<Rightarrow> rotate_state" where
  "rotate_clearDocument s = s\<lparr>r_pdfInfo := None\<rparr>"

definition rotate_togglePage :: "nat \<Rightarrow> rotate_state \<Rightarrow> rotate_state" where
  "rotate_togglePage index s =
     s\<lparr>r_selectedPages := (if index \<in> set (r_selectedPages s) then set_delete index (r_selectedPages s)
                             else set_add index (r_selectedPages s))\<rparr>"

text \<open>
  \<open>selectedPages.forEach\<close>: the angle is added to the page's rotation; an index without
  a page (\<open>pages[pageIndex]\<close> is \<open>undefined\<close>) throws.
\<close>

fun rotate_pages :: "int \<Rightarrow> nat list \<Rightarrow> page list \<Rightarrow> page list option" where
  "rotate_pages angle [] pages = Some pages"
| "rotate_pages angle (i # rest) pages =
     (if i < length pages
      then rotate_pages angle rest
             (pages[i := (pages ! i)\<lparr>page_rotation := page_rotation (pages ! i) + angle\<rparr>])
      else None)"

definition handleRotate :: "env \<Rightarrow> int \<Rightarrow> rotate_state \<Rightarrow> world \<Rightarrow> rotate_state \<times> world" where
  "handleRotate env angle s w =
     (case r_pdfInfo s of
        None \<Rightarrow> (s, w)
      | Some info \<Rightarrow>
          if r_selectedPages s = [] then (s\<lparr>r_error := Some EmptySelection\<rparr>, w)
          else
            (let s1 = s\<lparr>r_isProcessing := True, rotationProgress := 0, r_error := None\<rparr>;
                 w1 = decode_call (pm_file info) (report 0 w);
                 done' =
                   (case pdfLoad env (pm_file info) of
                      None \<Rightarrow> (s1\<lparr>r_error := Some TransformFailed\<rparr>, w1)
                    | Some pages \<Rightarrow>
                        (case rotate_pages angle (r_selectedPages s) pages of
                           None \<Rightarrow> (s1\<lparr>r_error := Some TransformFailed\<rparr>, w1)
                         | Some rotated \<Rightarrow>
                             (s1, downloadBlob (PdfDoc rotated) (''Rotated_'' @ pm_name info) w1)))
             in (fst done'\<lparr>r_isProcessing := False\<rparr>, snd done')))"

section \<open>The merge tool (MergePDF.tsx)\<close>

record file_item =
  fi_id :: string
  fi_file :: js_file
  fi_name :: string
  fi_size :: string
  fi_sizeRaw :: nat

datatype position = BottomCenter | BottomRight | BottomLeft | TopRight | TopLeft | TopCenter

record numbering_options =
  opt_enabled :: bool
  opt_position :: position
  opt_fontSize :: rat
  opt_color :: string

text \<open>The component state of \<open>MergePDF\<close> (without the two flags that only style the page).\<close>

record merge_state =
  files :: "file_item list"
  isMerging :: bool
  mergeProgress :: nat
  draggedIndex :: "nat option"
  errorMessage :: "string option"
  options :: numbering_options

definition setMergeProgress :: "nat \<Rightarrow> merge_state \<times> world \<Rightarrow> merge_state \<times> world" where
  "setMergeProgress v sw = (case sw of (s, w) \<Rightarrow> (s\<lparr>mergeProgress := v\<rparr>, report v w))"

subsection \<open>Reordering the queue\<close>

datatype direction = Up | Down

text \<open>\<open>files.findIndex(p)\<close>; \<open>None\<close> is the \<open>-1\<close> of the host language.\<close>

fun findIndex :: "('a \<Rightarrow> bool) \<Rightarrow> 'a list \<Rightarrow> nat option" where
  "findIndex p [] = None"
| "findIndex p (x # xs) = (if p x then Some 0 else map_option Suc (findIndex p xs))"

definition moveFile :: "string \<Rightarrow> direction \<Rightarrow> merge_state \<Rightarrow> merge_state" where
  "moveFile id' dir s =
     (case findIndex (\<lambda>f. fi_id f = id') (files s) of
        None \<Rightarrow> s
      | Some index \<Rightarrow>
          (let newFiles = files s;
               targetIndex = (case dir of Up \<Rightarrow> int index - 1 | Down \<Rightarrow> int index + 1)
           in if 0 \<le> targetIndex \<and> targetIndex < int (length newFiles)
              then s\<lparr>files := newFiles[index := newFiles ! nat targetIndex,
                                        nat targetIndex := newFiles ! index]\<rparr>
              else s))"

definition onDragStartItem :: "nat \<Rightarrow> merge_state \<Rightarrow> merge_state" where
  "onDragStartItem index s = s\<lparr>draggedIndex := Some index\<rparr>"

definition onDragEndItem :: "merge_state \<Rightarrow> merge_state" where
  "onDragEndItem s = s\<lparr>draggedIndex := None\<rparr>"

text \<open>\<open>xs.splice(i, 1)\<close> and \<open>xs.splice(i, 0, x)\<close>; a start beyond the end is the end.\<close>

definition splice_remove :: "nat \<Rightarrow> 'a list \<Rightarrow> 'a list" where
  "splice_remove i xs = take i xs @ drop (Suc i) xs"

definition splice_insert :: "nat \<Rightarrow> 'a \<Rightarrow> 'a list \<Rightarrow> 'a list" where
  "splice_insert i x xs = take i xs @ x # drop i xs"

text \<open>
  \<open>onDragOverItem\<close>. If \<open>draggedIndex\<close> is no position of the queue, the host language
  reads \<open>undefined\<close> there and splices it in: the result is no list of entries any more,
  and the model has no value for it (\<open>None\<close>).
\<close>

definition onDragOverItem :: "nat \<Rightarrow> merge_state \<Rightarrow> merge_state option" where
  "onDragOverItem index s =
     (case draggedIndex s of
        None \<Rightarrow> Some s
      | Some dragged \<Rightarrow>
          if dragged = index then Some s
          else if dragged < length (files s) then
            (let draggedItem = files s ! dragged;
                 newFiles = splice_insert index draggedItem (splice_remove dragged (files s))
             in Some (s\<lparr>draggedIndex := Some index, files := newFiles\<rparr>))
          else None)"

subsection \<open>Merging: \<open>handleMerge\<close>\<close>

text \<open>
  \<open>hexToRgb\<close>: an optional \<open>#\<close> and exactly six hexadecimal digits give the three
  components divided by 255; anything else is black.
\<close>

definition hexToRgb :: "string \<Rightarrow> rat \<times> rat \<times> rat" where
  "hexToRgb hex =
     (let h = (case hex of [] \<Rightarrow> [] | c # cs \<Rightarrow> if c = CHR ''#'' then cs else hex) in
      if length h = 6 \<and> list_all (\<lambda>c. digit_of 16 c \<noteq> None) h
      then (of_nat (digits_value 16 (take 2 h)) / 255,
            of_nat (digits_value 16 (take 2 (drop 2 h))) / 255,
            of_nat (digits_value 16 (drop 4 h)) / 255)
      else (0, 0, 0))"

text \<open>The loop over the queue: each file is loaded and all its pages are appended.\<close>

fun merge_loop ::
  "env \<Rightarrow> nat \<Rightarrow> nat \<Rightarrow> file_item list \<Rightarrow> page list \<Rightarrow> merge_state \<times> world
     \<Rightarrow> page list option \<times> (merge_state \<times> world)" where
  "merge_loop env n i [] merged sw = (Some merged, sw)"
| "merge_loop env n i (item # rest) merged sw =
     (case sw of
        (s, w) \<Rightarrow>
          (case pdfLoad env (fi_file item) of
             None \<Rightarrow> (None, (s, decode_call (fi_file item) w))
           | Some pdf \<Rightarrow>
               merge_loop env n (i + 1) rest (merged @ pdf)
                 (setMergeProgress (percent_of (i + 1) n 50) (s, decode_call (fi_file item) w))))"

text \<open>The label of page \<open>i\<close> (counted from 0) and its anchor.\<close>

definition label_text :: "nat \<Rightarrow> nat \<Rightarrow> string" where
  "label_text i totalPages = ''Page '' @ show_nat (i + 1) @ '' of '' @ show_nat totalPages"

definition label_xy :: "position \<Rightarrow> rat \<Rightarrow> rat \<Rightarrow> rat \<Rightarrow> rat \<Rightarrow> rat \<times> rat" where
  "label_xy pos width height textWidth fontSize =
     (let margin = 20 in
      case pos of
        BottomCenter \<Rightarrow> ((width / 2) - (textWidth / 2), margin)
      | BottomRight \<Rightarrow> (width - textWidth - margin, margin)
      | BottomLeft \<Rightarrow> (margin, margin)
      | TopCenter \<Rightarrow> ((width / 2) - (textWidth / 2), height - margin - fontSize)
      | TopRight \<Rightarrow> (width - textWidth - margin, height - margin - fontSize)
      | TopLeft \<Rightarrow> (margin, height - margin - fontSize))"

definition number_page :: "env \<Rightarrow> numbering_options \<Rightarrow> nat \<Rightarrow> nat \<Rightarrow> page \<Rightarrow> page" where
  "number_page env opts totalPages i p =
     (let text' = label_text i totalPages;
          textWidth = widthOfTextAtSize env text' (opt_fontSize opts);
          xy = label_xy (opt_position opts) (page_width p) (page_height p) textWidth (opt_fontSize opts)
      in p\<lparr>page_texts := page_texts p @
              [\<lparr>dt_text = text', dt_x = fst xy, dt_y = snd xy, dt_size = opt_fontSize opts,
                dt_color = hexToRgb (opt_color opts)\<rparr>]\<rparr>)"

text \<open>The numbering loop, \<open>i = 0 .. totalPages - 1\<close>, over the pages of the merged document.\<close>

fun numbering_loop ::
  "env \<Rightarrow> numbering_options \<Rightarrow> nat \<Rightarrow> nat list \<Rightarrow> page list \<Rightarrow> merge_state \<times> world
     \<Rightarrow> page list \<times> (merge_state \<times> world)" where
  "numbering_loop env opts totalPages [] pages sw = (pages, sw)"
| "numbering_loop env opts totalPages (i # rest) pages sw =
     numbering_loop env opts totalPages rest
       (pages[i := number_page env opts totalPages i (pages ! i)])
       (setMergeProgress (50 + percent_of (i + 1) totalPages 50) sw)"

text \<open>
  \<open>handleMerge\<close>; \<open>now\<close> is \<open>new Date().getTime()\<close>. The merged document is saved, the
  object URL of the saved file is created and clicked; the handler ends there.
\<close>

definition handleMerge :: "env \<Rightarrow> nat \<Rightarrow> merge_state \<Rightarrow> world \<Rightarrow> merge_state \<times> world" where
  "handleMerge env now s w =
     (if length (files s) < 2 then (s, alert ''Please add at least two PDF files to merge.'' w)
      else
        (case merge_loop env (length (files s)) 0 (files s) []
                (setMergeProgress 0 (s\<lparr>isMerging := True\<rparr>, w)) of
           (None, (s1, w1)) \<Rightarrow>
             (s1\<lparr>isMerging := False\<rparr>,
              alert ''Failed to merge PDFs. Please ensure files are not password protected.'' w1)
         | (Some merged, sw1) \<Rightarrow>
             (case (if opt_enabled (options s)
                    then numbering_loop env (options s) (length merged) [0 ..< length merged] merged sw1
                    else (merged, setMergeProgress 100 sw1)) of
                (pages, (s2, w2)) \<Rightarrow>
                  (case createObjectURL w2 of
                     (url, w3) \<Rightarrow>
                       (s2\<lparr>isMerging := False\<rparr>,
                        click_link (''Noobu_Merged_'' @ show_nat now @ ''.pdf'')
                          (PdfDoc (pdf_save env pages)) w3)))))"

section \<open>Example inputs\<close>

text \<open>
  Concrete inputs for the evaluations below. The example libraries read a file by the
  number that stands for its bytes: 99 is rejected by both libraries (a corrupt file),
  98 is opened by the rendering library (3 pages) and rejected by the PDF library (an
  encrypted file), 97 is a document of 3 pages whose second page cannot be rendered, any
  other number \<open>n\<close> is a document of \<open>n\<close> A4 pages.
\<close>

definition ex_file :: "nat \<Rightarrow> nat \<Rightarrow> js_file" where
  "ex_file bytes size' =
     \<lparr>file_name = ''doc.pdf'', file_size = size', file_type = ''application/pdf'', file_bytes = bytes\<rparr>"

definition ex_page :: "nat \<Rightarrow> nat \<Rightarrow> page" where
  "ex_page doc i =
     \<lparr>page_content = 100 * doc + i, page_width = 595, page_height = 842, page_rotation = 0,
      page_texts = []\<rparr>"

definition ex_env :: env where
  "ex_env =
     \<lparr>getDocument = (\<lambda>f. if file_bytes f = 99 then None
                          else if file_bytes f = 98 \<or> file_bytes f = 97 then Some 3
                          else Some (file_bytes f)),
      renderPage = (\<lambda>f i. if file_bytes f = 97 \<and> i = 2 then None else Some ''thumb''),
      pdfLoad = (\<lambda>f. if file_bytes f = 99 \<or> file_bytes f = 98 then None
                      else if file_bytes f = 97 then Some (map (ex_page 97) [0 ..< 3])
                      else Some (map (ex_page (file_bytes f)) [0 ..< file_bytes f])),
      widthOfTextAtSize = (\<lambda>t sz. of_nat (length t) * sz / 2),
      blankPage = \<lparr>page_content = 0, page_width = 595, page_height = 842, page_rotation = 0,
                    page_texts = []\<rparr>,
      formatSize = (\<lambda>n. ''1 KB'')\<rparr>"

definition ex_world :: world where
  "ex_world = \<lparr>liveURLs = [], urlCount = 0, downloads = [], alerts = [], decodes = [], reported = []\<rparr>"

definition ex_info :: "nat \<Rightarrow> nat \<Rightarrow> pdf_metadata" where
  "ex_info bytes n =
     \<lparr>pm_name = ''doc.pdf'', pm_size = ''1 KB'', pm_pageCount = n, pm_file = ex_file bytes 1000\<rparr>"

text \<open>The split tool with a document loaded, a selection and a range text.\<close>

definition ex_split :: "pdf_metadata option \<Rightarrow> split_mode \<Rightarrow> js_set \<Rightarrow> string \<Rightarrow> split_state" where
  "ex_split info mode sel txt' =
     \<lparr>pdfInfo = info, splitMode = mode, selectedPages = sel, rangeText = txt',
      thumbnails = (case info of None \<Rightarrow> [] | Some i \<Rightarrow> replicate (min (pm_pageCount i) 50) ''thumb''),
      isProcessing = False, progress = 0, error = None\<rparr>"

definition ex_rotate :: "pdf_metadata option \<Rightarrow> js_set \<Rightarrow> rotate_state" where
  "ex_rotate info sel =
     \<lparr>r_pdfInfo = info, r_selectedPages = sel,
      r_thumbnails = (case info of None \<Rightarrow> [] | Some i \<Rightarrow> replicate (min (pm_pageCount i) 50) ''thumb''),
      r_isProcessing = False, rotationProgress = 0, r_error = None\<rparr>"

definition ex_item :: "nat \<Rightarrow> file_item" where
  "ex_item bytes =
     \<lparr>fi_id = show_nat bytes, fi_file = ex_file bytes 1000, fi_name = ''doc.pdf'',
      fi_size = ''1 KB'', fi_sizeRaw = 1000\<rparr>"

definition ex_merge :: "nat list \<Rightarrow> bool \<Rightarrow> merge_state" where
  "ex_merge docs numbering =
     \<lparr>files = map ex_item docs, isMerging = False, mergeProgress = 0, draggedIndex = None,
      errorMessage = None,
      options = \<lparr>opt_enabled = numbering, opt_position = BottomCenter, opt_fontSize = 10,
                 opt_color = ''#6366f1''\<rparr>\<rparr>"

section \<open>The progress values of a run\<close>

text \<open>
  The values that the loops report, as lists: the first phase of a merge of \<open>k\<close> files
  (MergePDF.tsx:139), the numbering phase over \<open>t\<close> pages (MergePDF.tsx:192), and the
  burst of an \<open>n\<close>-page document (SplitPDF.tsx:187).
\<close>

definition phase_one :: "nat \<Rightarrow> nat list" where
  "phase_one k = map (\<lambda>j. percent_of (j + 1) k 50) [0 ..< k]"

definition phase_two :: "nat \<Rightarrow> nat list" where
  "phase_two t = map (\<lambda>i. 50 + percent_of (i + 1) t 50) [0 ..< t]"

definition burst_reports :: "nat \<Rightarrow> nat list" where
  "burst_reports n = map (\<lambda>i. percent_of (i + 1) n 100) [0 ..< n]"

section \<open>Proofs: the selection round trip\<close>

subsection \<open>Decimal numerals are read back by \<open>parseInt\<close>\<close>

lemma is_dec_digit_char: "d < 10 \<Longrightarrow> is_dec (digit_char d)"
  by (simp add: is_dec_def digit_char_def)

lemma digit_of_digit_char: "d < 10 \<Longrightarrow> digit_of 10 (digit_char d) = Some d"
  by (simp add: digit_of_def digit_char_def)

lemma is_dec_digit_of: "is_dec c \<Longrightarrow> digit_of 10 c \<noteq> None"
  by (simp add: is_dec_def digit_of_def)

lemma show_nat_is_dec: "\<forall>c \<in> set (show_nat n). is_dec c"
proof (induction n rule: show_nat.induct)
  case (1 n)
  show ?case
  proof (cases "n < 10")
    case True
    then show ?thesis by (simp add: show_nat.simps [of n] is_dec_digit_char)
  next
    case False
    with 1 show ?thesis
      by (subst show_nat.simps) (auto simp: is_dec_digit_char)
  qed
qed

lemma show_nat_nonempty: "show_nat n \<noteq> []"
  by (subst show_nat.simps) simp

lemma digits_value_snoc:
  "digits_value r (ds @ [c]) = digits_value r ds * r + (case digit_of r c of Some d \<Rightarrow> d | None \<Rightarrow> 0)"
  by (simp add: digits_value_def)

lemma digits_value_show_nat: "digits_value 10 (show_nat n) = n"
proof (induction n rule: show_nat.induct)
  case (1 n)
  show ?case
  proof (cases "n < 10")
    case True
    then show ?thesis
      by (simp add: show_nat.simps [of n] digits_value_def digit_of_digit_char)
  next
    case False
    then have "digits_value 10 (show_nat (n div 10)) = n div 10" using 1 by simp
    with False show ?thesis
      by (subst show_nat.simps) (simp add: digits_value_snoc digit_of_digit_char)
  qed
qed

lemma is_dec_chars:
  assumes "is_dec c"
  shows "\<not> is_space c" "c \<noteq> CHR ''-''" "c \<noteq> CHR ''+''" "c \<noteq> CHR ''x''" "c \<noteq> CHR ''X''"
    "c \<noteq> CHR '',''"
  using assms by (auto simp: is_dec_def is_space_def)

lemma takeWhile_all: "\<forall>c \<in> set s. P c \<Longrightarrow> takeWhile P s = s"
  by (induction s) auto

lemma dropWhile_none: "\<forall>c \<in> set s. \<not> P c \<Longrightarrow> dropWhile P s = s"
  by (cases s) auto

lemma parse_digits_show_nat: "parse_digits 10 (show_nat n) = Some (int n)"
proof -
  have tw: "takeWhile (\<lambda>c. digit_of 10 c \<noteq> None) (show_nat n) = show_nat n"
    by (rule takeWhile_all) (use show_nat_is_dec is_dec_digit_of in blast)
  show ?thesis
    unfolding parse_digits_def tw Let_def
    by (simp add: show_nat_nonempty digits_value_show_nat)
qed

lemma parse_unsigned_show_nat: "parse_unsigned (show_nat n) = Some (int n)"
proof (cases "show_nat n")
  case Nil
  then show ?thesis using show_nat_nonempty by simp
next
  case (Cons c0 s1)
  show ?thesis
  proof (cases s1)
    case Nil
    with Cons show ?thesis
      using parse_digits_show_nat [of n] by (simp add: parse_unsigned_def)
  next
    case (Cons c1 rest)
    with \<open>show_nat n = c0 # s1\<close> have "is_dec c1"
      using show_nat_is_dec [of n] by simp
    then have "c1 \<noteq> CHR ''x''" "c1 \<noteq> CHR ''X''" by (simp_all add: is_dec_chars)
    with Cons \<open>show_nat n = c0 # s1\<close> show ?thesis
      using parse_digits_show_nat [of n] by (simp add: parse_unsigned_def)
  qed
qed

lemma parseInt_show_nat: "parseInt (show_nat n) = Some (int n)"
proof (cases "show_nat n")
  case Nil
  then show ?thesis using show_nat_nonempty by simp
next
  case (Cons c rest)
  then have d: "is_dec c" using show_nat_is_dec [of n] by simp
  have "dropWhile is_space (show_nat n) = show_nat n"
    by (rule dropWhile_none) (use show_nat_is_dec is_dec_chars(1) in blast)
  then show ?thesis
    using Cons is_dec_chars(2,3) [OF d] parse_unsigned_show_nat [of n]
    by (simp add: parseInt_def)
qed

lemma split_on_no_sep: "c \<notin> set a \<Longrightarrow> split_on c a = [a]"
  by (induction a) auto

lemma split_on_append: "c \<notin> set a \<Longrightarrow> split_on c (a @ c # rest) = a # split_on c rest"
  by (induction a) auto

lemma trim_no_space: "\<forall>c \<in> set s. \<not> is_space c \<Longrightarrow> trim s = s"
  by (simp add: trim_def dropWhile_none)

lemma trim_leading_space: "trim (CHR '' '' # s) = trim s"
  by (simp add: trim_def is_space_def)

lemma range_loop_runs:
  "range_loop ranges s e xs = ranges @ map token_of (runs s e xs)"
  by (induction xs arbitrary: ranges s e) (simp_all add: token_of_def)

lemma runs_nonempty: "runs s e xs \<noteq> []"
  by (induction xs arbitrary: s e) simp_all

lemma runs_bounds:
  "s \<le> e \<Longrightarrow> r \<in> set (runs s e xs) \<Longrightarrow> fst r \<le> snd r \<and> snd r \<in> insert e (set xs)"
proof (induction xs arbitrary: s e)
  case Nil
  then show ?case by simp
next
  case (Cons x xs)
  show ?case
  proof (cases "x = e + 1")
    case True
    with Cons.prems have "s \<le> x" "r \<in> set (runs s x xs)" by simp_all
    from Cons.IH [OF this] show ?thesis by auto
  next
    case False
    with Cons.prems consider "r = (s, e)" | "r \<in> set (runs x x xs)" by auto
    then show ?thesis
    proof cases
      case 1
      with Cons.prems show ?thesis by simp
    next
      case 2
      have "x \<le> x" by simp
      from Cons.IH [OF this 2] show ?thesis by auto
    qed
  qed
qed

lemma runs_cover:
  "s \<le> e \<Longrightarrow> (\<Union>r \<in> set (runs s e xs). {fst r .. snd r}) = {s .. e} \<union> set xs"
proof (induction xs arbitrary: s e)
  case Nil
  then show ?case by simp
next
  case (Cons x xs)
  show ?case
  proof (cases "x = e + 1")
    case True
    then have "s \<le> x" using Cons.prems by simp
    from Cons.IH [OF this] True Cons.prems show ?thesis by auto
  next
    case False
    have "x \<le> x" by simp
    from Cons.IH [OF this] False show ?thesis by auto
  qed
qed

lemma token_chars: "c \<in> set (token_of r) \<Longrightarrow> is_dec c \<or> c = CHR ''-''"
  using show_nat_is_dec by (auto simp: token_of_def range_token_def split: if_splits)

lemma token_no_comma: "CHR '','' \<notin> set (token_of r)"
  using token_chars [of "CHR '',''" r] by (auto simp: is_dec_def)

lemma token_no_space: "\<forall>c \<in> set (token_of r). \<not> is_space c"
proof
  fix c assume "c \<in> set (token_of r)"
  from token_chars [OF this] show "\<not> is_space c"
    by (auto simp: is_dec_def is_space_def)
qed

lemma split_join_tokens:
  "rs \<noteq> [] \<Longrightarrow> map trim (split_on CHR '','' (join '', '' (map token_of rs))) = map token_of rs"
proof (induction rs rule: induct_list012)
  case 1
  then show ?case by simp
next
  case (2 r)
  then show ?case
    by (simp add: split_on_no_sep token_no_comma trim_no_space token_no_space)
next
  case (3 r q rs)
  have "join '', '' (map token_of (r # q # rs))
      = token_of r @ CHR '','' # (CHR '' '' # join '', '' (map token_of (q # rs)))"
    by simp
  then have "split_on CHR '','' (join '', '' (map token_of (r # q # rs)))
      = token_of r # split_on CHR '','' (CHR '' '' # join '', '' (map token_of (q # rs)))"
    by (simp only: split_on_append [OF token_no_comma])
  moreover obtain p ps where sp: "split_on CHR '','' (join '', '' (map token_of (q # rs))) = p # ps"
    and tl: "map trim (p # ps) = map token_of (q # rs)"
    using 3(2) by (cases "split_on CHR '','' (join '', '' (map token_of (q # rs)))") auto
  ultimately show ?case
    by (simp add: trim_leading_space trim_no_space token_no_space)
qed

lemma set_set_add: "set (set_add x s) = insert x (set s)"
  by (auto simp: set_add_def)

lemma distinct_set_add: "distinct s \<Longrightarrow> distinct (set_add x s)"
  by (simp add: set_add_def)

lemma set_add_page:
  "set (add_page m pages i) = set pages \<union> (if 0 < i \<and> i \<le> int m then {nat (i - 1)} else {})"
  by (simp add: add_page_def set_set_add)

lemma distinct_add_page: "distinct pages \<Longrightarrow> distinct (add_page m pages i)"
  by (simp add: add_page_def distinct_set_add)

lemma set_foldl_add_page:
  "set (foldl (add_page m) pages js)
     = set pages \<union> (\<lambda>i. nat (i - 1)) ` {i \<in> set js. 0 < i \<and> i \<le> int m}"
  by (induction js arbitrary: pages) (auto simp: set_add_page)

lemma distinct_foldl_add_page:
  "distinct pages \<Longrightarrow> distinct (foldl (add_page m) pages js)"
  by (induction js arbitrary: pages) (simp_all add: distinct_add_page)

lemma interval_image:
  assumes "a \<le> b" "b < m"
  shows "(\<lambda>i. nat (i - 1)) ` {i \<in> {int a + 1 .. int b + 1}. 0 < i \<and> i \<le> int m} = {a .. b}"
proof (rule set_eqI)
  fix k
  show "k \<in> (\<lambda>i. nat (i - 1)) ` {i \<in> {int a + 1 .. int b + 1}. 0 < i \<and> i \<le> int m} \<longleftrightarrow> k \<in> {a .. b}"
  proof
    assume "k \<in> (\<lambda>i. nat (i - 1)) ` {i \<in> {int a + 1 .. int b + 1}. 0 < i \<and> i \<le> int m}"
    then obtain i where "k = nat (i - 1)" "int a + 1 \<le> i" "i \<le> int b + 1" by auto
    then show "k \<in> {a .. b}" by auto
  next
    assume k: "k \<in> {a .. b}"
    then have "int k + 1 \<in> {i \<in> {int a + 1 .. int b + 1}. 0 < i \<and> i \<le> int m}"
      using assms by auto
    moreover have "k = nat ((int k + 1) - 1)" by simp
    ultimately show "k \<in> (\<lambda>i. nat (i - 1)) ` {i \<in> {int a + 1 .. int b + 1}. 0 < i \<and> i \<le> int m}"
      by (rule rev_image_eqI)
  qed
qed

lemma hyphen_not_dec: "CHR ''-'' \<notin> set (show_nat n)"
  using show_nat_is_dec [of n] by (auto simp: is_dec_def)

lemma parse_part_single: "parse_part m pages (show_nat n) = add_page m pages (int n)"
  by (simp add: parse_part_def hyphen_not_dec parseInt_show_nat)

lemma parse_part_pair:
  "parse_part m pages (show_nat p @ ''-'' @ show_nat q)
     = foldl (add_page m) pages [min (int p) (int q) .. max (int p) (int q)]"
proof -
  have "split_on CHR ''-'' (show_nat p @ CHR ''-'' # show_nat q) = [show_nat p, show_nat q]"
    by (simp add: split_on_append split_on_no_sep hyphen_not_dec)
  then show ?thesis
    by (simp add: parse_part_def parseInt_show_nat)
qed

lemma set_parse_part_token:
  assumes "fst r \<le> snd r" "snd r < m"
  shows "set (parse_part m pages (token_of r)) = set pages \<union> {fst r .. snd r}"
proof (cases "fst r = snd r")
  case True
  have "set (parse_part m pages (show_nat (snd r + 1))) = insert (snd r) (set pages)"
    unfolding parse_part_single set_add_page using assms(2) by simp
  with True show ?thesis
    by (simp add: token_of_def range_token_def)
next
  case False
  with assms have mm: "min (int (fst r + 1)) (int (snd r + 1)) = int (fst r) + 1"
    "max (int (fst r + 1)) (int (snd r + 1)) = int (snd r) + 1" by simp_all
  have "set (parse_part m pages (show_nat (fst r + 1) @ ''-'' @ show_nat (snd r + 1)))
      = set pages \<union> {fst r .. snd r}"
    unfolding parse_part_pair mm set_foldl_add_page
    using interval_image [OF assms] by simp
  with False show ?thesis
    by (simp add: token_of_def range_token_def)
qed

lemma distinct_parse_part: "distinct pages \<Longrightarrow> distinct (parse_part m pages part)"
  by (auto simp: parse_part_def distinct_foldl_add_page distinct_add_page
      split: list.splits option.splits)

lemma set_foldl_parse_tokens:
  "\<forall>r \<in> set rs. fst r \<le> snd r \<and> snd r < m \<Longrightarrow>
   set (foldl (parse_part m) pages (map token_of rs)) = set pages \<union> (\<Union>r \<in> set rs. {fst r .. snd r})"
  by (induction rs arbitrary: pages) (auto simp: set_parse_part_token)

lemma distinct_foldl_parse_part:
  "distinct pages \<Longrightarrow> distinct (foldl (parse_part m) pages parts)"
  by (induction parts arbitrary: pages) (simp_all add: distinct_parse_part)

lemma sort_eq_if_same_elements:
  assumes "distinct xs" "distinct ys" "set xs = set ys"
  shows "sort xs = sort (ys::nat list)"
proof -
  have "mset xs = mset ys" using assms by (simp add: set_eq_iff_mset_eq_distinct)
  then show ?thesis by (simp add: properties_for_sort)
qed

lemma parseRangeText_empty: "parseRangeText [] m = []"
  by (simp add: parseRangeText_def trim_def parse_part_def parseInt_def)

lemma parse_range_text_of:
  assumes "distinct S" "\<forall>i \<in> set S. i < N"
  shows "parseRangeText (range_text_of S) N = sort S"
proof (cases "sort S")
  case Nil
  then have "S = []" by (metis length_sort length_0_conv)
  then show ?thesis by (simp add: range_text_of_def parseRangeText_empty)
next
  case (Cons first rest)
  let ?rs = "runs first first rest"
  have elems: "set S = insert first (set rest)"
    using Cons by (metis list.simps(15) set_sort)
  have rtext: "range_text_of S = join '', '' (map token_of ?rs)"
    by (simp add: range_text_of_def Cons range_loop_runs)
  have parts: "map trim (split_on CHR '','' (range_text_of S)) = map token_of ?rs"
    unfolding rtext by (rule split_join_tokens) (rule runs_nonempty)
  have bounds: "\<forall>r \<in> set ?rs. fst r \<le> snd r \<and> snd r < N"
  proof
    fix r assume "r \<in> set ?rs"
    from runs_bounds [OF _ this] have "fst r \<le> snd r" "snd r \<in> set S"
      using elems by auto
    with assms(2) show "fst r \<le> snd r \<and> snd r < N" by simp
  qed
  have "set (foldl (parse_part N) [] (map token_of ?rs)) = (\<Union>r \<in> set ?rs. {fst r .. snd r})"
    using set_foldl_parse_tokens [OF bounds, of "[]"] by simp
  also have "\<dots> = set S" using runs_cover [of first first rest] elems by simp
  finally have "set (foldl (parse_part N) [] (map token_of ?rs)) = set S" .
  moreover have "distinct (foldl (parse_part N) [] (map token_of ?rs))"
    by (simp add: distinct_foldl_parse_part)
  ultimately have "sort (foldl (parse_part N) [] (map token_of ?rs)) = sort S"
    using assms(1) by (intro sort_eq_if_same_elements)
  then show ?thesis by (simp add: parseRangeText_def parts)
qed

subsection \<open>What the parser returns\<close>

lemma foldl_add_page_bound:
  "set (foldl (add_page m) pages js) \<subseteq> set pages \<union> {..<m}"
  unfolding set_foldl_add_page by auto

lemma parse_part_bound: "set (parse_part m pages part) \<subseteq> set pages \<union> {..<m}"
  using foldl_add_page_bound [of m pages]
  by (auto simp: parse_part_def set_add_page split: list.splits option.splits)

lemma foldl_parse_part_bound: "set (foldl (parse_part m) pages parts) \<subseteq> set pages \<union> {..<m}"
proof (induction parts arbitrary: pages)
  case Nil
  then show ?case by simp
next
  case (Cons p ps)
  have "set (foldl (parse_part m) (parse_part m pages p) ps) \<subseteq> set (parse_part m pages p) \<union> {..<m}"
    by (rule Cons.IH)
  with parse_part_bound [of m pages p] show ?case by auto
qed

lemma parseRangeText_bound: "i \<in> set (parseRangeText t m) \<Longrightarrow> i < m"
  using foldl_parse_part_bound [of m "[]" "map trim (split_on CHR '','' t)"]
  by (auto simp: parseRangeText_def)

lemma parseRangeText_distinct: "distinct (parseRangeText t m)"
  by (simp add: parseRangeText_def distinct_foldl_parse_part)

lemma parseRangeText_sorted: "sorted (parseRangeText t m)"
  by (simp add: parseRangeText_def)

text \<open>
  Claim C1. For every set \<open>S\<close> of 0-based page indices of a document with \<open>N\<close> pages (a
  host-language set: no duplicates, any insertion order), parsing the range text derived
  from \<open>S\<close> gives back exactly the elements of \<open>S\<close>, as the ascending array. In
  particular the text derived from any parse result parses to that result again.
\<close>

theorem C1_roundtrip:
  assumes "distinct S" and "\<forall>i \<in> set S. i < N"
  shows "parseRangeText (range_text_of S) N = sort S
       \<and> set (parseRangeText (range_text_of S) N) = set S
       \<and> parseRangeText (range_text_of (parseRangeText t N)) N = parseRangeText t N"
proof -
  have a: "parseRangeText (range_text_of S) N = sort S"
    using assms by (rule parse_range_text_of)
  have "parseRangeText (range_text_of (parseRangeText t N)) N = sort (parseRangeText t N)"
    by (rule parse_range_text_of) (simp_all add: parseRangeText_distinct parseRangeText_bound)
  then have b: "parseRangeText (range_text_of (parseRangeText t N)) N = parseRangeText t N"
    by (simp add: parseRangeText_sorted sort_key_id_if_sorted)
  from a b show ?thesis by simp
qed

theorem C1_roundtrip_witness:
  "distinct [2, 0, 1, 4 :: nat] \<and> list_all (\<lambda>i. i < 5) [2, 0, 1, 4 :: nat]
   \<and> range_text_of [2, 0, 1, 4] = ''1-3, 5''
   \<and> parseRangeText (range_text_of [2, 0, 1, 4]) 5 = [0, 1, 2, 4]
   \<and> parseRangeText (range_text_of (parseRangeText ''3,1,2'' 5)) 5 = parseRangeText ''3,1,2'' 5"
proof -
  have "range_text_of [2, 0, 1, 4] = ''1-3, 5''" by code_simp
  then show ?thesis
    using C1_roundtrip [of "[2, 0, 1, 4]" 5 "''3,1,2''"] by simp
qed

section \<open>Proofs: the selection state machine\<close>

lemma set_set_delete: "set (set_delete x s) = set s - {x}"
  by (auto simp: set_delete_def)

lemma distinct_set_delete: "distinct s \<Longrightarrow> distinct (set_delete x s)"
  by (simp add: set_delete_def distinct_removeAll)

lemma set_foldl_set_add: "set (foldl (\<lambda>acc i. set_add i acc) acc xs) = set acc \<union> set xs"
  by (induction xs arbitrary: acc) (auto simp: set_set_add)

lemma distinct_foldl_set_add: "distinct acc \<Longrightarrow> distinct (foldl (\<lambda>acc i. set_add i acc) acc xs)"
  by (induction xs arbitrary: acc) (simp_all add: distinct_set_add)

lemma togglePage_fields:
  "selectedPages (togglePage index s) =
     (if index \<in> set (selectedPages s) then set_delete index (selectedPages s)
      else set_add index (selectedPages s))"
  "rangeText (togglePage index s) = range_text_of (selectedPages (togglePage index s))"
  "pdfInfo (togglePage index s) = pdfInfo s"
  by (simp_all add: togglePage_def updateRangeFromSet_def Let_def)

lemma togglePage_sync:
  assumes "distinct (selectedPages s)" "\<forall>i \<in> set (selectedPages s). i < N" "index < N"
  shows "parseRangeText (rangeText (togglePage index s)) N = sort (selectedPages (togglePage index s))"
proof -
  have "distinct (selectedPages (togglePage index s))"
    using assms(1) by (simp add: togglePage_fields distinct_set_add distinct_set_delete)
  moreover have "\<forall>i \<in> set (selectedPages (togglePage index s)). i < N"
    using assms(2,3) by (simp add: togglePage_fields set_set_add set_set_delete)
  ultimately show ?thesis
    unfolding togglePage_fields(2) by (rule parse_range_text_of)
qed

lemma selectAll_sync:
  assumes "pdfInfo s = Some info"
  shows "parseRangeText (rangeText (selectAll s)) (pm_pageCount info) = sort (selectedPages (selectAll s))"
    and "set (selectedPages (selectAll s)) = {..< pm_pageCount info}"
proof -
  let ?all = "foldl (\<lambda>acc i. set_add i acc) [] [0 ..< pm_pageCount info]"
  have sel: "selectedPages (selectAll s) = ?all" and rt: "rangeText (selectAll s) = range_text_of ?all"
    using assms by (simp_all add: selectAll_def updateRangeFromSet_def Let_def)
  have "distinct ?all" by (simp add: distinct_foldl_set_add)
  moreover have "\<forall>i \<in> set ?all. i < pm_pageCount info" by (simp add: set_foldl_set_add)
  ultimately show "parseRangeText (rangeText (selectAll s)) (pm_pageCount info) = sort (selectedPages (selectAll s))"
    unfolding sel rt by (rule parse_range_text_of)
  show "set (selectedPages (selectAll s)) = {..< pm_pageCount info}"
    unfolding sel by (auto simp: set_foldl_set_add)
qed

lemma selectAll_pdfInfo: "pdfInfo (selectAll s) = pdfInfo s"
  by (simp add: selectAll_def updateRangeFromSet_def Let_def split: option.splits)

lemma clearSelection_sync:
  "parseRangeText (rangeText (clearSelection s)) N = sort (selectedPages (clearSelection s))"
  by (simp add: clearSelection_def parseRangeText_empty)

text \<open>
  Claim C2, as the code has it. For a loaded document and a selection within its page
  count, after \<open>togglePage\<close> (of a page of the document), \<open>selectAll\<close> and
  \<open>clearSelection\<close> the range text parses (bounded by the page count) to exactly the
  selected set. The direct edit of the range text replaces the text and nothing else: the
  selected set stays as it was.
\<close>

theorem C2_selection_sync:
  assumes "pdfInfo s = Some info" and "distinct (selectedPages s)"
    and "\<forall>i \<in> set (selectedPages s). i < pm_pageCount info" and "index < pm_pageCount info"
  shows "parseRangeText (rangeText (togglePage index s)) (pm_pageCount info)
           = sort (selectedPages (togglePage index s))
       \<and> parseRangeText (rangeText (selectAll s)) (pm_pageCount info)
           = sort (selectedPages (selectAll s))
       \<and> parseRangeText (rangeText (clearSelection s)) (pm_pageCount info)
           = sort (selectedPages (clearSelection s))
       \<and> pdfInfo (togglePage index s) = Some info \<and> pdfInfo (selectAll s) = Some info
       \<and> pdfInfo (clearSelection s) = Some info
       \<and> editRangeText v s = s\<lparr>rangeText := v\<rparr>"
proof -
  have t: "parseRangeText (rangeText (togglePage index s)) (pm_pageCount info)
            = sort (selectedPages (togglePage index s))"
    using assms(2-4) by (rule togglePage_sync)
  have a: "parseRangeText (rangeText (selectAll s)) (pm_pageCount info)
            = sort (selectedPages (selectAll s))"
    using assms(1) by (rule selectAll_sync(1))
  have c: "parseRangeText (rangeText (clearSelection s)) (pm_pageCount info)
            = sort (selectedPages (clearSelection s))"
    by (rule clearSelection_sync)
  have i: "pdfInfo (togglePage index s) = Some info" "pdfInfo (selectAll s) = Some info"
    "pdfInfo (clearSelection s) = Some info"
    using assms(1) by (simp_all add: togglePage_fields selectAll_pdfInfo clearSelection_def)
  have e: "editRangeText v s = s\<lparr>rangeText := v\<rparr>" by (simp add: editRangeText_def)
  from t a c i e show ?thesis by simp
qed

theorem C2_selection_sync_witness:
  "parseRangeText (rangeText (togglePage 0 (ex_split (Some (ex_info 5 5)) RangeMode [2] ''3''))) 5 = [0, 2]
   \<and> selectedPages (togglePage 0 (ex_split (Some (ex_info 5 5)) RangeMode [2] ''3'')) = [2, 0]"
  using C2_selection_sync [of "ex_split (Some (ex_info 5 5)) RangeMode [2] ''3''" "ex_info 5 5" 0]
  by (simp add: ex_split_def ex_info_def togglePage_fields set_add_def)

text \<open>
  The claim includes the direct edit: in the initial state of a loaded 5-page document
  (nothing selected, empty text, both in agreement) typing \<open>1\<close> into the range input
  leaves a text that parses to page index 0 and a selected set that is still empty.
\<close>

theorem C2_direct_edit_counterexample:
  "parseRangeText (rangeText (ex_split (Some (ex_info 5 5)) RangeMode [] [])) 5
     = sort (selectedPages (ex_split (Some (ex_info 5 5)) RangeMode [] []))
   \<and> set (parseRangeText (rangeText (editRangeText ''1'' (ex_split (Some (ex_info 5 5)) RangeMode [] []))) 5)
     \<noteq> set (selectedPages (editRangeText ''1'' (ex_split (Some (ex_info 5 5)) RangeMode [] [])))"
proof -
  have "parseRangeText ''1'' 5 = [0]" by code_simp
  then show ?thesis by (simp add: ex_split_def editRangeText_def parseRangeText_empty)
qed

section \<open>Proofs: extraction\<close>

lemma setProgress_simps [simp]:
  "fst (setProgress v (s, w)) = s\<lparr>progress := v\<rparr>"
  "snd (setProgress v (s, w)) = report v w"
  by (simp_all add: setProgress_def)

lemma setProgress_pair: "setProgress v (s, w) = (s\<lparr>progress := v\<rparr>, report v w)"
  by (simp add: setProgress_def)

lemma downloadBlob_eq:
  "downloadBlob b filename w =
     w\<lparr>liveURLs := removeAll (urlCount w) (liveURLs w @ [urlCount w]),
       urlCount := urlCount w + 1,
       downloads := downloads w @ [(filename, b)]\<rparr>"
  by (simp add: downloadBlob_def createObjectURL_def revokeObjectURL_def click_link_def)

text \<open>The extraction, when the source loads and the copy succeeds.\<close>

lemma extract_output:
  assumes "pdfInfo s = Some info" "splitMode s = RangeMode"
    and "pdfLoad env (pm_file info) = Some src"
    and "resolved_indices info s \<noteq> []"
    and "list_all (\<lambda>i. i < length src) (resolved_indices info s)"
  shows "downloads (snd (handleSplit env s w))
     = downloads w @ [(''Extracted_'' @ pm_name info, PdfDoc (map (\<lambda>i. src ! i) (resolved_indices info s)))]"
  using assms
  by (simp add: handleSplit_def split_job_def split_cleanup_def setProgress_pair copyPages_def
      downloadBlob_eq report_def decode_call_def Let_def)

lemma resolved_indices_text:
  "rangeText s \<noteq> [] \<Longrightarrow> sorted (resolved_indices info s) \<and> distinct (resolved_indices info s)"
  by (simp add: resolved_indices_def parseRangeText_sorted parseRangeText_distinct)

lemma resolved_indices_no_text:
  "rangeText s = [] \<Longrightarrow> resolved_indices info s = selectedPages s"
  by (simp add: resolved_indices_def)

text \<open>
  Claim C3 at a concrete input. In a 5-page document the user selects page 3 and then
  page 1 by clicking (indices 2 and 0), and empties the range input. The extraction then
  takes the indices from the selected set, in insertion order: the output is page 2
  followed by page 0, where the claim says page 0 followed by page 2.
\<close>

theorem C3_extract_insertion_order:
  "editRangeText [] (togglePage 0 (togglePage 2 (ex_split (Some (ex_info 5 5)) RangeMode [] [])))
     = ex_split (Some (ex_info 5 5)) RangeMode [2, 0] []
   \<and> downloads (snd (handleSplit ex_env (ex_split (Some (ex_info 5 5)) RangeMode [2, 0] []) ex_world))
     = [(''Extracted_doc.pdf'', PdfDoc [ex_page 5 2, ex_page 5 0])]"
  by code_simp

section \<open>Proofs: empty selections\<close>

lemma rotate_empty_selection:
  assumes "r_pdfInfo rs = Some rinfo" "r_selectedPages rs = []"
  shows "handleRotate env angle rs w = (rs\<lparr>r_error := Some EmptySelection\<rparr>, w)"
  using assms by (simp add: handleRotate_def)

lemma split_empty_selection:
  assumes "pdfInfo s = Some info" "splitMode s = RangeMode" "resolved_indices info s = []"
  shows "handleSplit env s w =
     (s\<lparr>isProcessing := False, progress := 0,
        error := Some (if pdfLoad env (pm_file info) = None then TransformFailed else EmptySelection)\<rparr>,
      w\<lparr>decodes := decodes w @ [pm_file info], reported := reported w @ [0, 0]\<rparr>)"
  using assms
  by (cases "pdfLoad env (pm_file info)")
     (simp_all add: handleSplit_def split_job_def split_cleanup_def setProgress_pair
       report_def decode_call_def Let_def)

text \<open>
  Claim C4, as the code has it. With a document loaded, the rotation invoked with an empty
  selection fails with \<open>EmptySelection\<close> and does nothing else. The extraction invoked
  with an empty resolved selection triggers no download and creates no URL, and leaves
  the document, the selection, the range text and the thumbnails as they were; its error
  is \<open>EmptySelection\<close> if the PDF library decodes the source, and the error of a failed
  split otherwise, because the source is decoded before the selection is looked at.
\<close>

theorem C4_empty_selection:
  assumes "r_pdfInfo rs = Some rinfo" and "r_selectedPages rs = []"
    and "pdfInfo s = Some info" and "splitMode s = RangeMode" and "resolved_indices info s = []"
  shows "handleRotate env angle rs w = (rs\<lparr>r_error := Some EmptySelection\<rparr>, w)
       \<and> handleSplit env s w =
           (s\<lparr>isProcessing := False, progress := 0,
              error := Some (if pdfLoad env (pm_file info) = None then TransformFailed
                             else EmptySelection)\<rparr>,
            w\<lparr>decodes := decodes w @ [pm_file info], reported := reported w @ [0, 0]\<rparr>)"
  using rotate_empty_selection [OF assms(1,2)] split_empty_selection [OF assms(3-5)] by simp

theorem C4_empty_selection_witness:
  "handleRotate ex_env 90 (ex_rotate (Some (ex_info 5 5)) []) ex_world
     = ((ex_rotate (Some (ex_info 5 5)) [])\<lparr>r_error := Some EmptySelection\<rparr>, ex_world)
   \<and> error (fst (handleSplit ex_env (ex_split (Some (ex_info 5 5)) RangeMode [] ''9, x'') ex_world))
     = Some EmptySelection
   \<and> downloads (snd (handleSplit ex_env (ex_split (Some (ex_info 5 5)) RangeMode [] ''9, x'') ex_world)) = []"
proof -
  have r: "resolved_indices (ex_info 5 5) (ex_split (Some (ex_info 5 5)) RangeMode [] ''9, x'') = []"
    by code_simp
  have l: "pdfLoad ex_env (pm_file (ex_info 5 5)) \<noteq> None"
    by (simp add: ex_env_def ex_info_def ex_file_def)
  show ?thesis
    using C4_empty_selection [of "ex_rotate (Some (ex_info 5 5)) []" "ex_info 5 5"
        "ex_split (Some (ex_info 5 5)) RangeMode [] ''9, x''" "ex_info 5 5" ex_env 90 ex_world] r l
    by (simp add: ex_rotate_def ex_split_def ex_world_def)
qed

text \<open>
  A file that the rendering library opens and the PDF library rejects (an encrypted
  document): the extraction with nothing selected reports the failed split, not
  \<open>EmptySelection\<close>.
\<close>

theorem C4_decode_error_counterexample:
  "resolved_indices (ex_info 98 3) (ex_split (Some (ex_info 98 3)) RangeMode [] []) = []
   \<and> error (fst (handleSplit ex_env (ex_split (Some (ex_info 98 3)) RangeMode [] []) ex_world))
       = Some TransformFailed"
  by code_simp

section \<open>Proofs: loading a document\<close>

text \<open>
  The split tool rejects a file above 100 MB before anything else: the state changes in
  its error only, and no codec is called.
\<close>

lemma split_oversize_rejected:
  assumes "file_type file = ''application/pdf''" "file_size file > 100 * 1024 * 1024"
  shows "handleFileChange env (Some file) s w = (s\<lparr>error := Some FileTooLarge\<rparr>, w)"
  using assms by (simp add: handleFileChange_def)

text \<open>The rotate tool hands every PDF file to the codec and resets its selection.\<close>

lemma rotate_load_no_size_check:
  assumes "file_type file = ''application/pdf''"
  shows "decodes (snd (rotate_handleFileChange env (Some file) s w)) = decodes w @ [file]"
    and "r_selectedPages (fst (rotate_handleFileChange env (Some file) s w)) = []"
  using assms
  by (simp_all add: rotate_handleFileChange_def decode_call_def Let_def
      split: option.splits)

lemma rotate_load_pdfInfo:
  assumes "file_type file = ''application/pdf''" "getDocument env file = Some n"
  shows "r_pdfInfo (fst (rotate_handleFileChange env (Some file) s w))
     = Some \<lparr>pm_name = file_name file, pm_size = formatSize env (file_size file),
              pm_pageCount = n, pm_file = file\<rparr>"
  using assms
  by (simp add: rotate_handleFileChange_def Let_def split: option.splits)

text \<open>
  Claim C5 at a concrete input. The load path of the rotate tool has no size check: a
  file of 200 MB is decoded and becomes the loaded document, where the claim says that
  every load path rejects it with \<open>FileTooLarge\<close> before any decode attempt.
\<close>

theorem C5_rotate_oversize_decoded:
  "file_size (ex_file 5 (200 * 1024 * 1024)) > 100 * 1024 * 1024
   \<and> decodes (snd (rotate_handleFileChange ex_env (Some (ex_file 5 (200 * 1024 * 1024)))
         (ex_rotate None []) ex_world)) = [ex_file 5 (200 * 1024 * 1024)]
   \<and> map_option pm_pageCount (r_pdfInfo (fst (rotate_handleFileChange ex_env
         (Some (ex_file 5 (200 * 1024 * 1024))) (ex_rotate None []) ex_world))) = Some 5"
proof -
  have t: "file_type (ex_file 5 (200 * 1024 * 1024)) = ''application/pdf''"
    by (simp add: ex_file_def)
  have g: "getDocument ex_env (ex_file 5 (200 * 1024 * 1024)) = Some 5"
    by (simp add: ex_env_def ex_file_def)
  show ?thesis
    using rotate_load_no_size_check(1) [OF t, of ex_env "ex_rotate None []" ex_world]
      rotate_load_pdfInfo [OF t g, of "ex_rotate None []" ex_world]
    by (simp add: ex_world_def) (simp add: ex_file_def)
qed

text \<open>
  A load whose bytes the rendering library rejects: \<open>setPdfInfo\<close> has not run, the stored
  document stays, and the selection, the range text and the thumbnails were emptied
  before the \<open>try\<close>.
\<close>

lemma split_unreadable:
  assumes "file_type file = ''application/pdf''" "file_size file \<le> 100 * 1024 * 1024"
    and "getDocument env file = None"
  shows "handleFileChange env (Some file) s w =
     (s\<lparr>isProcessing := False, error := Some UnreadableDocument, thumbnails := [],
        selectedPages := [], rangeText := [], progress := 0\<rparr>,
      w\<lparr>decodes := decodes w @ [file], reported := reported w @ [0]\<rparr>)"
  using assms
  by (simp add: handleFileChange_def setProgress_pair report_def decode_call_def Let_def)

lemma rotate_unreadable:
  assumes "file_type file = ''application/pdf''" "getDocument env file = None"
  shows "rotate_handleFileChange env (Some file) rs w =
     (rs\<lparr>r_isProcessing := False, r_error := Some UnreadableDocument, r_thumbnails := [],
         r_selectedPages := []\<rparr>,
      w\<lparr>decodes := decodes w @ [file]\<rparr>)"
  using assms
  by (simp add: rotate_handleFileChange_def decode_call_def Let_def)

text \<open>
  The thumbnail loop changes the progress only, fails exactly when a page cannot be
  rendered, and otherwise returns the thumbnails of the pages in order.
\<close>

lemma thumb_loop_fails:
  "fst (thumb_loop render limit js thumbs sw) = None
     \<longleftrightarrow> \<not> list_all (\<lambda>i. render i \<noteq> None) js"
  by (induction js arbitrary: thumbs sw) (auto split: option.splits)

lemma thumb_loop_state:
  "(fst (snd (thumb_loop render limit js thumbs (s, w))))\<lparr>progress := v\<rparr> = s\<lparr>progress := v\<rparr>"
  by (induction js arbitrary: thumbs s w) (auto simp: setProgress_pair split: option.splits)

lemma rotate_thumb_loop_fails:
  "rotate_thumb_loop render js thumbs = None \<longleftrightarrow> \<not> list_all (\<lambda>i. render i \<noteq> None) js"
  by (induction js arbitrary: thumbs) (auto split: option.splits)

text \<open>
  A load whose document opens and whose thumbnail loop fails: \<open>setPdfInfo\<close> has already
  run (SplitPDF.tsx:53, JPGToPDF.tsx:273), so the new document is stored, without
  thumbnails, next to the error.
\<close>

lemma split_render_failure:
  assumes "file_type file = ''application/pdf''" "file_size file \<le> 100 * 1024 * 1024"
    and "getDocument env file = Some n"
    and "\<not> list_all (\<lambda>i. renderPage env file i \<noteq> None) [1 ..< min n 50 + 1]"
  shows "fst (handleFileChange env (Some file) s w) =
     s\<lparr>isProcessing := False, error := Some UnreadableDocument, thumbnails := [],
        selectedPages := [], rangeText := [], progress := 0,
        pdfInfo := Some \<lparr>pm_name = file_name file, pm_size = formatSize env (file_size file),
                          pm_pageCount = n, pm_file = file\<rparr>\<rparr>"
proof -
  let ?s2 = "s\<lparr>isProcessing := True, error := None, thumbnails := [], selectedPages := [],
        rangeText := [], pdfInfo := Some \<lparr>pm_name = file_name file,
          pm_size = formatSize env (file_size file), pm_pageCount = n, pm_file = file\<rparr>\<rparr>"
  let ?run = "thumb_loop (renderPage env file) (min n 50) [1 ..< min n 50 + 1] []
      (?s2, decode_call file w)"
  obtain r s3 w3 where run: "?run = (r, (s3, w3))" by (cases ?run) auto
  have none: "r = None"
    using thumb_loop_fails [where render = "renderPage env file" and limit = "min n 50"
      and js = "[1 ..< min n 50 + 1]" and thumbs = "[]" and sw = "(?s2, decode_call file w)"]
      assms(4) run by simp
  have same: "s3\<lparr>progress := 0\<rparr> = ?s2\<lparr>progress := 0\<rparr>"
    using thumb_loop_state [where render = "renderPage env file" and limit = "min n 50"
        and js = "[1 ..< min n 50 + 1]" and thumbs = "[]" and s = ?s2
        and w = "decode_call file w" and v = 0] run by simp
  have "fst (handleFileChange env (Some file) s w)
      = (s3\<lparr>progress := 0\<rparr>)\<lparr>error := Some UnreadableDocument, isProcessing := False\<rparr>"
    using assms(1,2,3) run none
    by (simp add: handleFileChange_def Let_def setProgress_pair del: upt_Suc)
  then show ?thesis unfolding same by simp
qed

lemma thumb_loop_ok:
  "list_all (\<lambda>i. render i \<noteq> None) js \<Longrightarrow>
     fst (thumb_loop render limit js thumbs sw) = Some (thumbs @ map (\<lambda>i. the (render i)) js)"
  by (induction js arbitrary: thumbs sw) (auto split: option.splits)

lemma rotate_thumb_loop_ok:
  "list_all (\<lambda>i. render i \<noteq> None) js \<Longrightarrow>
     rotate_thumb_loop render js thumbs = Some (thumbs @ map (\<lambda>i. the (render i)) js)"
  by (induction js arbitrary: thumbs) (auto split: option.splits)

lemma split_load_ok:
  assumes "file_type file = ''application/pdf''" "file_size file \<le> 100 * 1024 * 1024"
    and "getDocument env file = Some n"
    and "list_all (\<lambda>i. renderPage env file i \<noteq> None) [1 ..< min n 50 + 1]"
  shows "fst (handleFileChange env (Some file) s w) =
     s\<lparr>isProcessing := False, error := None,
        thumbnails := map (\<lambda>i. the (renderPage env file i)) [1 ..< min n 50 + 1],
        selectedPages := [], rangeText := [], progress := 0,
        pdfInfo := Some \<lparr>pm_name = file_name file, pm_size = formatSize env (file_size file),
                          pm_pageCount = n, pm_file = file\<rparr>\<rparr>"
proof -
  let ?s2 = "s\<lparr>isProcessing := True, error := None, thumbnails := [], selectedPages := [],
        rangeText := [], pdfInfo := Some \<lparr>pm_name = file_name file,
          pm_size = formatSize env (file_size file), pm_pageCount = n, pm_file = file\<rparr>\<rparr>"
  let ?run = "thumb_loop (renderPage env file) (min n 50) [1 ..< min n 50 + 1] []
      (?s2, decode_call file w)"
  obtain r s3 w3 where run: "?run = (r, (s3, w3))" by (cases ?run) auto
  have some: "r = Some (map (\<lambda>i. the (renderPage env file i)) [1 ..< min n 50 + 1])"
    using thumb_loop_ok [OF assms(4), where limit = "min n 50" and thumbs = "[]"
        and sw = "(?s2, decode_call file w)"] run by simp
  have same: "s3\<lparr>progress := 0\<rparr> = ?s2\<lparr>progress := 0\<rparr>"
    using thumb_loop_state [where render = "renderPage env file" and limit = "min n 50"
        and js = "[1 ..< min n 50 + 1]" and thumbs = "[]" and s = ?s2
        and w = "decode_call file w" and v = 0] run by simp
  have "fst (handleFileChange env (Some file) s w)
      = (s3\<lparr>progress := 0\<rparr>)\<lparr>thumbnails := map (\<lambda>i. the (renderPage env file i)) [1 ..< min n 50 + 1],
           isProcessing := False\<rparr>"
    using assms(1,2,3) run some
    by (simp add: handleFileChange_def Let_def setProgress_pair del: upt_Suc)
  then show ?thesis unfolding same by simp
qed

lemma rotate_render_failure:
  assumes "file_type file = ''application/pdf''" "getDocument env file = Some n"
    and "\<not> list_all (\<lambda>i. renderPage env file i \<noteq> None) [1 ..< min n 50 + 1]"
  shows "fst (rotate_handleFileChange env (Some file) rs w) =
     rs\<lparr>r_isProcessing := False, r_error := Some UnreadableDocument, r_thumbnails := [],
         r_selectedPages := [],
         r_pdfInfo := Some \<lparr>pm_name = file_name file, pm_size = formatSize env (file_size file),
                            pm_pageCount = n, pm_file = file\<rparr>\<rparr>"
proof -
  have "rotate_thumb_loop (renderPage env file) [1 ..< min n 50 + 1] [] = None"
    unfolding rotate_thumb_loop_fails using assms(3) .
  then show ?thesis
    using assms(1,2)
    by (simp add: rotate_handleFileChange_def Let_def del: upt_Suc)
qed

lemma rotate_load_ok:
  assumes "file_type file = ''application/pdf''" "getDocument env file = Some n"
    and "list_all (\<lambda>i. renderPage env file i \<noteq> None) [1 ..< min n 50 + 1]"
  shows "fst (rotate_handleFileChange env (Some file) rs w) =
     rs\<lparr>r_isProcessing := False, r_error := None,
         r_thumbnails := map (\<lambda>i. the (renderPage env file i)) [1 ..< min n 50 + 1],
         r_selectedPages := [],
         r_pdfInfo := Some \<lparr>pm_name = file_name file, pm_size = formatSize env (file_size file),
                            pm_pageCount = n, pm_file = file\<rparr>\<rparr>"
  using assms(1,2) rotate_thumb_loop_ok [OF assms(3), of "[]"]
  by (simp add: rotate_handleFileChange_def Let_def del: upt_Suc)

text \<open>
  Claim C6, as the code has it. One \<open>catch\<close> ends every failed load with the message of
  \<open>UnreadableDocument\<close> (SplitPDF.tsx:76, JPGToPDF.tsx:296): the load in which the
  rendering library rejects the bytes, and the load in which it opens the document and
  one of the first 50 pages cannot be rendered. For a PDF file,

  \<^item> the load ends with \<open>UnreadableDocument\<close> exactly in these two cases (in the split tool
    only for a file within the size limit);
  \<^item> after such a load the selection, the thumbnails and, in the split tool, the range
    text are empty, whatever they were, and the busy flag and the progress are reset;
  \<^item> the stored document is the one stored before when the bytes were rejected, and the
    new document when a page could not be rendered.
\<close>

theorem C6_failed_load:
  assumes "file_type file = ''application/pdf''"
  shows
   "(error (fst (handleFileChange env (Some file) s w)) = Some UnreadableDocument
       \<longleftrightarrow> file_size file \<le> 100 * 1024 * 1024
           \<and> (case getDocument env file of
                None \<Rightarrow> True
              | Some n \<Rightarrow> \<not> list_all (\<lambda>i. renderPage env file i \<noteq> None) [1 ..< min n 50 + 1]))
    \<and> (error (fst (handleFileChange env (Some file) s w)) = Some UnreadableDocument \<longrightarrow>
         fst (handleFileChange env (Some file) s w)
           = s\<lparr>isProcessing := False, error := Some UnreadableDocument, thumbnails := [],
               selectedPages := [], rangeText := [], progress := 0,
               pdfInfo :=
                 (case getDocument env file of
                    None \<Rightarrow> pdfInfo s
                  | Some n \<Rightarrow> Some \<lparr>pm_name = file_name file,
                                     pm_size = formatSize env (file_size file),
                                     pm_pageCount = n, pm_file = file\<rparr>)\<rparr>)
    \<and> (r_error (fst (rotate_handleFileChange env (Some file) rs w)) = Some UnreadableDocument
       \<longleftrightarrow> (case getDocument env file of
                None \<Rightarrow> True
              | Some n \<Rightarrow> \<not> list_all (\<lambda>i. renderPage env file i \<noteq> None) [1 ..< min n 50 + 1]))
    \<and> (r_error (fst (rotate_handleFileChange env (Some file) rs w)) = Some UnreadableDocument \<longrightarrow>
         fst (rotate_handleFileChange env (Some file) rs w)
           = rs\<lparr>r_isProcessing := False, r_error := Some UnreadableDocument, r_thumbnails := [],
                r_selectedPages := [],
                r_pdfInfo :=
                  (case getDocument env file of
                     None \<Rightarrow> r_pdfInfo rs
                   | Some n \<Rightarrow> Some \<lparr>pm_name = file_name file,
                                      pm_size = formatSize env (file_size file),
                                      pm_pageCount = n, pm_file = file\<rparr>)\<rparr>)"
proof -
  let ?ok = "\<lambda>n. list_all (\<lambda>i. renderPage env file i \<noteq> None) [1 ..< min n 50 + 1]"
  let ?info = "\<lambda>n. \<lparr>pm_name = file_name file, pm_size = formatSize env (file_size file),
                     pm_pageCount = n, pm_file = file\<rparr>"
  let ?S = "fst (handleFileChange env (Some file) s w)"
  let ?R = "fst (rotate_handleFileChange env (Some file) rs w)"
  have split:
    "(error ?S = Some UnreadableDocument
        \<longleftrightarrow> file_size file \<le> 100 * 1024 * 1024
            \<and> (case getDocument env file of None \<Rightarrow> True | Some n \<Rightarrow> \<not> ?ok n))
     \<and> (error ?S = Some UnreadableDocument \<longrightarrow>
          ?S = s\<lparr>isProcessing := False, error := Some UnreadableDocument, thumbnails := [],
                 selectedPages := [], rangeText := [], progress := 0,
                 pdfInfo := (case getDocument env file of None \<Rightarrow> pdfInfo s
                             | Some n \<Rightarrow> Some (?info n))\<rparr>)"
  proof (cases "file_size file \<le> 100 * 1024 * 1024")
    case False
    then have "?S = s\<lparr>error := Some FileTooLarge\<rparr>"
      using split_oversize_rejected [OF assms, of env s w] by simp
    then have "error ?S = Some FileTooLarge" by simp
    with False show ?thesis by simp
  next
    case small: True
    show ?thesis
    proof (cases "getDocument env file")
      case None
      have "?S = s\<lparr>isProcessing := False, error := Some UnreadableDocument, thumbnails := [],
                   selectedPages := [], rangeText := [], progress := 0\<rparr>"
        using split_unreadable [OF assms small None, of s w] by simp
      then show ?thesis using small None by simp
    next
      case (Some n)
      show ?thesis
      proof (cases "?ok n")
        case True
        have "error ?S = None"
          using split_load_ok [OF assms small Some True, of s w] by simp
        then show ?thesis using small Some True by simp
      next
        case False
        have "?S = s\<lparr>isProcessing := False, error := Some UnreadableDocument, thumbnails := [],
                     selectedPages := [], rangeText := [], progress := 0,
                     pdfInfo := Some (?info n)\<rparr>"
          by (rule split_render_failure [OF assms small Some False])
        then show ?thesis using small Some False by simp
      qed
    qed
  qed
  have rotate:
    "(r_error ?R = Some UnreadableDocument
        \<longleftrightarrow> (case getDocument env file of None \<Rightarrow> True | Some n \<Rightarrow> \<not> ?ok n))
     \<and> (r_error ?R = Some UnreadableDocument \<longrightarrow>
          ?R = rs\<lparr>r_isProcessing := False, r_error := Some UnreadableDocument,
                  r_thumbnails := [], r_selectedPages := [],
                  r_pdfInfo := (case getDocument env file of None \<Rightarrow> r_pdfInfo rs
                                | Some n \<Rightarrow> Some (?info n))\<rparr>)"
  proof (cases "getDocument env file")
    case None
    have "?R = rs\<lparr>r_isProcessing := False, r_error := Some UnreadableDocument,
                  r_thumbnails := [], r_selectedPages := []\<rparr>"
      using rotate_unreadable [OF assms None, of rs w] by simp
    then show ?thesis using None by simp
  next
    case (Some n)
    show ?thesis
    proof (cases "?ok n")
      case True
      have "r_error ?R = None"
        using rotate_load_ok [OF assms Some True, of rs w] by simp
      then show ?thesis using Some True by simp
    next
      case False
      have "?R = rs\<lparr>r_isProcessing := False, r_error := Some UnreadableDocument,
                    r_thumbnails := [], r_selectedPages := [],
                    r_pdfInfo := Some (?info n)\<rparr>"
        by (rule rotate_render_failure [OF assms Some False])
      then show ?thesis using Some False by simp
    qed
  qed
  show ?thesis
    by (rule conjI [OF conjunct1 [OF split] conjI [OF conjunct2 [OF split] rotate]])
qed

text \<open>
  States that the user can reach with the file input on screen (\<open>pdfInfo\<close> is \<open>null\<close>):
  the initial state, and the state after loading a document of two pages, selecting the
  first page and pressing ``Clear'', which keeps the selection, the range text and the
  thumbnails of the document it removes.
\<close>

lemma ex_files:
  "file_type (ex_file b 1000) = ''application/pdf''"
  "file_size (ex_file b 1000) \<le> 100 * 1024 * 1024"
  "getDocument ex_env (ex_file 99 1000) = None"
  "getDocument ex_env (ex_file 97 1000) = Some 3"
  "getDocument ex_env (ex_file 2 1000) = Some 2"
  "\<not> list_all (\<lambda>i. renderPage ex_env (ex_file 97 1000) i \<noteq> None) [1 ..< min 3 50 + 1]"
  "list_all (\<lambda>i. renderPage ex_env (ex_file 2 1000) i \<noteq> None) [1 ..< min 2 50 + 1]"
  by (simp_all add: ex_file_def ex_env_def upt_rec)

lemma split_reach_loaded:
  "fst (handleFileChange ex_env (Some (ex_file 2 1000)) (ex_split None RangeMode [] []) ex_world)
     = ex_split (Some (ex_info 2 2)) RangeMode [] []"
  unfolding split_load_ok [OF ex_files(1,2,5,7)]
  by (simp add: ex_split_def ex_info_def ex_env_def ex_file_def upt_rec numeral_2_eq_2)

lemma split_reach_cleared:
  "clearDocument (togglePage 0 (fst (handleFileChange ex_env (Some (ex_file 2 1000))
       (ex_split None RangeMode [] []) ex_world)))
     = clearDocument (ex_split (Some (ex_info 2 2)) RangeMode [0] ''1'')"
  unfolding split_reach_loaded by code_simp

lemma rotate_reach_loaded:
  "fst (rotate_handleFileChange ex_env (Some (ex_file 2 1000)) (ex_rotate None []) ex_world)
     = ex_rotate (Some (ex_info 2 2)) []"
  unfolding rotate_load_ok [OF ex_files(1,5,7)]
  by (simp add: ex_rotate_def ex_info_def ex_env_def ex_file_def upt_rec numeral_2_eq_2)

lemma rotate_reach_cleared:
  "rotate_clearDocument (rotate_togglePage 0 (fst (rotate_handleFileChange ex_env
       (Some (ex_file 2 1000)) (ex_rotate None []) ex_world)))
     = rotate_clearDocument (ex_rotate (Some (ex_info 2 2)) [0])"
  unfolding rotate_reach_loaded by code_simp

text \<open>
  The theorem at these states: a corrupt file picked after ``Clear'', and a document whose
  second page cannot be rendered picked in the initial state.
\<close>

theorem C6_failed_load_witness:
  "fst (handleFileChange ex_env (Some (ex_file 99 1000))
         (clearDocument (ex_split (Some (ex_info 2 2)) RangeMode [0] ''1'')) ex_world)
     = (ex_split None RangeMode [] [])\<lparr>error := Some UnreadableDocument\<rparr>
   \<and> fst (handleFileChange ex_env (Some (ex_file 97 1000)) (ex_split None RangeMode [] []) ex_world)
     = (ex_split None RangeMode [] [])
         \<lparr>error := Some UnreadableDocument, pdfInfo := Some (ex_info 97 3)\<rparr>
   \<and> fst (rotate_handleFileChange ex_env (Some (ex_file 99 1000))
         (rotate_clearDocument (ex_rotate (Some (ex_info 2 2)) [0])) ex_world)
     = (ex_rotate None [])\<lparr>r_error := Some UnreadableDocument\<rparr>
   \<and> fst (rotate_handleFileChange ex_env (Some (ex_file 97 1000)) (ex_rotate None []) ex_world)
     = (ex_rotate None [])
         \<lparr>r_error := Some UnreadableDocument, r_pdfInfo := Some (ex_info 97 3)\<rparr>"
proof -
  let ?a = "clearDocument (ex_split (Some (ex_info 2 2)) RangeMode [0] ''1'')"
  let ?ra = "rotate_clearDocument (ex_rotate (Some (ex_info 2 2)) [0])"
  note corrupt = C6_failed_load [of "ex_file 99 1000" ex_env ?a ex_world ?ra, OF ex_files(1)]
  note broken = C6_failed_load [of "ex_file 97 1000" ex_env "ex_split None RangeMode [] []"
      ex_world "ex_rotate None []", OF ex_files(1)]
  have 1: "fst (handleFileChange ex_env (Some (ex_file 99 1000)) ?a ex_world)
     = (ex_split None RangeMode [] [])\<lparr>error := Some UnreadableDocument\<rparr>"
    using corrupt ex_files(2,3)
    by (simp add: ex_split_def clearDocument_def)
  have 2: "fst (rotate_handleFileChange ex_env (Some (ex_file 99 1000)) ?ra ex_world)
     = (ex_rotate None [])\<lparr>r_error := Some UnreadableDocument\<rparr>"
    using corrupt ex_files(2,3)
    by (simp add: ex_rotate_def rotate_clearDocument_def)
  have 3: "fst (handleFileChange ex_env (Some (ex_file 97 1000)) (ex_split None RangeMode [] []) ex_world)
     = (ex_split None RangeMode [] [])
         \<lparr>error := Some UnreadableDocument, pdfInfo := Some (ex_info 97 3)\<rparr>"
    using broken ex_files(2,4,6)
    by (simp add: ex_split_def ex_info_def) (simp add: ex_file_def ex_env_def)
  have 4: "fst (rotate_handleFileChange ex_env (Some (ex_file 97 1000)) (ex_rotate None []) ex_world)
     = (ex_rotate None [])
         \<lparr>r_error := Some UnreadableDocument, r_pdfInfo := Some (ex_info 97 3)\<rparr>"
    using broken ex_files(2,4,6)
    by (simp add: ex_rotate_def ex_info_def) (simp add: ex_file_def ex_env_def)
  from 1 3 2 4 show ?thesis by (intro conjI)
qed

text \<open>
  Against the claim as stated. After ``Clear'' the selection \<open>{0}\<close> and two thumbnails are
  still there; a corrupt file is picked, the load fails with \<open>UnreadableDocument\<close>, and
  the selection and the thumbnails are gone. In the initial state a document whose
  second page cannot be rendered is picked: the load fails with \<open>UnreadableDocument\<close>,
  and the state holds the new document, which it did not hold before, without
  thumbnails. The same in the rotate tool.
\<close>

theorem C6_selection_cleared_counterexample:
  "clearDocument (togglePage 0 (fst (handleFileChange ex_env (Some (ex_file 2 1000))
       (ex_split None RangeMode [] []) ex_world)))
     = clearDocument (ex_split (Some (ex_info 2 2)) RangeMode [0] ''1'')
   \<and> selectedPages (clearDocument (ex_split (Some (ex_info 2 2)) RangeMode [0] ''1'')) = [0]
   \<and> thumbnails (clearDocument (ex_split (Some (ex_info 2 2)) RangeMode [0] ''1''))
       = [''thumb'', ''thumb'']
   \<and> error (fst (handleFileChange ex_env (Some (ex_file 99 1000))
         (clearDocument (ex_split (Some (ex_info 2 2)) RangeMode [0] ''1'')) ex_world))
       = Some UnreadableDocument
   \<and> selectedPages (fst (handleFileChange ex_env (Some (ex_file 99 1000))
         (clearDocument (ex_split (Some (ex_info 2 2)) RangeMode [0] ''1'')) ex_world)) = []
   \<and> thumbnails (fst (handleFileChange ex_env (Some (ex_file 99 1000))
         (clearDocument (ex_split (Some (ex_info 2 2)) RangeMode [0] ''1'')) ex_world)) = []
   \<and> pdfInfo (ex_split None RangeMode [] []) = None
   \<and> error (fst (handleFileChange ex_env (Some (ex_file 97 1000))
         (ex_split None RangeMode [] []) ex_world)) = Some UnreadableDocument
   \<and> pdfInfo (fst (handleFileChange ex_env (Some (ex_file 97 1000))
         (ex_split None RangeMode [] []) ex_world)) = Some (ex_info 97 3)
   \<and> thumbnails (fst (handleFileChange ex_env (Some (ex_file 97 1000))
         (ex_split None RangeMode [] []) ex_world)) = []
   \<and> rotate_clearDocument (rotate_togglePage 0 (fst (rotate_handleFileChange ex_env
         (Some (ex_file 2 1000)) (ex_rotate None []) ex_world)))
     = rotate_clearDocument (ex_rotate (Some (ex_info 2 2)) [0])
   \<and> r_selectedPages (rotate_clearDocument (ex_rotate (Some (ex_info 2 2)) [0])) = [0]
   \<and> r_error (fst (rotate_handleFileChange ex_env (Some (ex_file 99 1000))
         (rotate_clearDocument (ex_rotate (Some (ex_info 2 2)) [0])) ex_world))
       = Some UnreadableDocument
   \<and> r_selectedPages (fst (rotate_handleFileChange ex_env (Some (ex_file 99 1000))
         (rotate_clearDocument (ex_rotate (Some (ex_info 2 2)) [0])) ex_world)) = []
   \<and> r_pdfInfo (ex_rotate None []) = None
   \<and> r_error (fst (rotate_handleFileChange ex_env (Some (ex_file 97 1000))
         (ex_rotate None []) ex_world)) = Some UnreadableDocument
   \<and> r_pdfInfo (fst (rotate_handleFileChange ex_env (Some (ex_file 97 1000))
         (ex_rotate None []) ex_world)) = Some (ex_info 97 3)"
proof -
  have info: "\<lparr>pm_name = file_name (ex_file 97 1000),
      pm_size = formatSize ex_env (file_size (ex_file 97 1000)),
      pm_pageCount = 3, pm_file = ex_file 97 1000\<rparr> = ex_info 97 3"
    by (simp add: ex_info_def ex_file_def ex_env_def)
  have before: "selectedPages (clearDocument (ex_split (Some (ex_info 2 2)) RangeMode [0] ''1'')) = [0]"
    "thumbnails (clearDocument (ex_split (Some (ex_info 2 2)) RangeMode [0] ''1''))
       = [''thumb'', ''thumb'']"
    "pdfInfo (ex_split None RangeMode [] []) = None"
    "r_selectedPages (rotate_clearDocument (ex_rotate (Some (ex_info 2 2)) [0])) = [0]"
    "r_pdfInfo (ex_rotate None []) = None"
    by (simp_all add: clearDocument_def rotate_clearDocument_def ex_split_def ex_rotate_def
        ex_info_def numeral_2_eq_2)
  show ?thesis
    unfolding split_reach_cleared rotate_reach_cleared
      split_unreadable [OF ex_files(1,2,3)] rotate_unreadable [OF ex_files(1,3)]
      split_render_failure [OF ex_files(1,2,4,6)] rotate_render_failure [OF ex_files(1,4,6)]
      info before
    by simp
qed

section \<open>Proofs: merging\<close>

lemma setMergeProgress_pair: "setMergeProgress v (s, w) = (s\<lparr>mergeProgress := v\<rparr>, report v w)"
  by (simp add: setMergeProgress_def)

lemma merge_loop_success:
  assumes "map (\<lambda>f. pdfLoad env (fi_file f)) items = map Some docs"
  shows "merge_loop env n i items merged (s, w) =
     (Some (merged @ concat docs),
      (s\<lparr>mergeProgress := last (mergeProgress s # map (\<lambda>j. percent_of (j + 1) n 50) [i ..< i + length items])\<rparr>,
       w\<lparr>decodes := decodes w @ map fi_file items,
         reported := reported w @ map (\<lambda>j. percent_of (j + 1) n 50) [i ..< i + length items]\<rparr>))"
  using assms
proof (induction items arbitrary: i merged s w docs)
  case Nil
  then show ?case by simp
next
  case (Cons item rest)
  then obtain d ds where docs: "docs = d # ds" and d: "pdfLoad env (fi_file item) = Some d"
    and rest: "map (\<lambda>f. pdfLoad env (fi_file f)) rest = map Some ds"
    by (cases docs) auto
  have upt: "[i ..< i + length (item # rest)] = i # [Suc i ..< Suc i + length rest]"
    by (simp add: upt_rec)
  show ?case
    unfolding upt
    by (simp add: d docs setMergeProgress_pair Cons.IH [OF rest] report_def decode_call_def)
qed

lemma merge_loop_failure:
  assumes "\<not> list_all (\<lambda>f. pdfLoad env (fi_file f) \<noteq> None) items"
  shows "fst (merge_loop env n i items merged sw) = None"
  using assms
proof (induction items arbitrary: i merged sw)
  case Nil
  then show ?case by simp
next
  case (Cons item rest)
  then show ?case by (cases sw) (auto simp: setMergeProgress_pair split: option.splits)
qed

lemma numbering_loop_eq:
  "numbering_loop env opts tot js pages (s, w) =
     (foldl (\<lambda>ps i. ps[i := number_page env opts tot i (ps ! i)]) pages js,
      (s\<lparr>mergeProgress := last (mergeProgress s # map (\<lambda>i. 50 + percent_of (i + 1) tot 50) js)\<rparr>,
       w\<lparr>reported := reported w @ map (\<lambda>i. 50 + percent_of (i + 1) tot 50) js\<rparr>))"
  by (induction js arbitrary: pages s w) (simp_all add: setMergeProgress_pair report_def)

lemma foldl_update_length:
  "length (foldl (\<lambda>ps i. ps[i := f i (ps ! i)]) pages js) = length pages"
  by (induction js arbitrary: pages) simp_all

lemma foldl_update_nth:
  assumes "distinct js" "j < length pages"
  shows "foldl (\<lambda>ps i. ps[i := f i (ps ! i)]) pages js ! j
     = (if j \<in> set js then f j (pages ! j) else pages ! j)"
  using assms
proof (induction js arbitrary: pages)
  case Nil
  then show ?case by simp
next
  case (Cons i rest)
  have len: "j < length (pages[i := f i (pages ! i)])" using Cons.prems by simp
  have d: "distinct rest" "i \<notin> set rest" using Cons.prems by simp_all
  show ?case
    using Cons.IH [OF d(1) len] d(2) Cons.prems(2)
    by (cases "j = i") (simp_all add: nth_list_update)
qed

lemma foldl_update_all:
  "foldl (\<lambda>ps i. ps[i := f i (ps ! i)]) pages [0 ..< length pages]
     = map (\<lambda>i. f i (pages ! i)) [0 ..< length pages]"
  by (rule nth_equalityI) (simp_all add: foldl_update_length foldl_update_nth)

text \<open>What a successful merge does, in full.\<close>

lemma handleMerge_success:
  assumes "2 \<le> length (files s)"
    and "map (\<lambda>f. pdfLoad env (fi_file f)) (files s) = map Some docs"
  shows "handleMerge env now s w =
     (s\<lparr>isMerging := False,
        mergeProgress := last (map (\<lambda>j. percent_of (j + 1) (length (files s)) 50) [0 ..< length (files s)]
           @ (if opt_enabled (options s)
              then map (\<lambda>i. 50 + percent_of (i + 1) (length (concat docs)) 50) [0 ..< length (concat docs)]
              else [100]))\<rparr>,
      w\<lparr>liveURLs := liveURLs w @ [urlCount w],
        urlCount := urlCount w + 1,
        downloads := downloads w @
          [(''Noobu_Merged_'' @ show_nat now @ ''.pdf'',
            PdfDoc (pdf_save env
                     (if opt_enabled (options s)
                      then map (\<lambda>i. number_page env (options s) (length (concat docs)) i (concat docs ! i))
                             [0 ..< length (concat docs)]
                      else concat docs)))],
        decodes := decodes w @ map fi_file (files s),
        reported := reported w @ 0 # map (\<lambda>j. percent_of (j + 1) (length (files s)) 50) [0 ..< length (files s)]
           @ (if opt_enabled (options s)
              then map (\<lambda>i. 50 + percent_of (i + 1) (length (concat docs)) 50) [0 ..< length (concat docs)]
              else [100])\<rparr>)"
proof -
  have ne: "[0 ..< length (files s)] \<noteq> []" using assms(1) by auto
  have l: "merge_loop env (length (files s)) 0 (files s) [] (s\<lparr>isMerging := True, mergeProgress := 0\<rparr>, report 0 w)
    = (Some (concat docs),
      (s\<lparr>isMerging := True, mergeProgress := last (map (\<lambda>j. percent_of (j + 1) (length (files s)) 50) [0 ..< length (files s)])\<rparr>,
       w\<lparr>decodes := decodes w @ map fi_file (files s),
         reported := reported w @ 0 # map (\<lambda>j. percent_of (j + 1) (length (files s)) 50) [0 ..< length (files s)]\<rparr>))"
    using ne by (simp add: merge_loop_success [OF assms(2)] report_def)
  show ?thesis
  proof (cases "opt_enabled (options s)")
    case True
    then show ?thesis
      using assms(1) ne
      by (simp add: handleMerge_def setMergeProgress_pair l numbering_loop_eq foldl_update_all
          createObjectURL_def click_link_def last_append)
  next
    case False
    then show ?thesis
      using assms(1)
      by (simp add: handleMerge_def setMergeProgress_pair l createObjectURL_def click_link_def)
        (simp add: report_def)
  qed
qed

lemma number_page_texts:
  "page_texts (number_page env opts tot i p) =
     page_texts p @
       [\<lparr>dt_text = ''Page '' @ show_nat (i + 1) @ '' of '' @ show_nat tot,
         dt_x = fst (label_xy (opt_position opts) (page_width p) (page_height p)
                  (widthOfTextAtSize env (''Page '' @ show_nat (i + 1) @ '' of '' @ show_nat tot) (opt_fontSize opts))
                  (opt_fontSize opts)),
         dt_y = snd (label_xy (opt_position opts) (page_width p) (page_height p)
                  (widthOfTextAtSize env (''Page '' @ show_nat (i + 1) @ '' of '' @ show_nat tot) (opt_fontSize opts))
                  (opt_fontSize opts)),
         dt_size = opt_fontSize opts, dt_color = hexToRgb (opt_color opts)\<rparr>]"
  by (simp add: number_page_def label_text_def Let_def)

lemma number_page_content: "page_content (number_page env opts tot i p) = page_content p"
  by (simp add: number_page_def Let_def)

lemma label_xy_centered:
  "pos = BottomCenter \<or> pos = TopCenter \<Longrightarrow>
     fst (label_xy pos width height textWidth fontSize) + textWidth / 2 = width / 2"
  by (auto simp: label_xy_def)

lemma label_xy_cases:
  "label_xy pos width height textWidth fontSize =
     ((case pos of BottomCenter \<Rightarrow> width / 2 - textWidth / 2 | TopCenter \<Rightarrow> width / 2 - textWidth / 2
        | BottomRight \<Rightarrow> width - textWidth - 20 | TopRight \<Rightarrow> width - textWidth - 20
        | BottomLeft \<Rightarrow> 20 | TopLeft \<Rightarrow> 20),
      (case pos of BottomCenter \<Rightarrow> 20 | BottomRight \<Rightarrow> 20 | BottomLeft \<Rightarrow> 20
        | TopCenter \<Rightarrow> height - 20 - fontSize | TopRight \<Rightarrow> height - 20 - fontSize
        | TopLeft \<Rightarrow> height - 20 - fontSize))"
  by (cases pos) (simp_all add: label_xy_def)

lemma map_nth_fun: "map (\<lambda>i. f (xs ! i)) [0 ..< length xs] = map f xs"
  by (rule nth_equalityI) simp_all

lemma handleMerge_short_queue:
  "length (files s) < 2 \<Longrightarrow>
     handleMerge env now s w = (s, alert ''Please add at least two PDF files to merge.'' w)"
  by (simp add: handleMerge_def)

text \<open>
  Claim C7, as the code has it. The handler refuses a queue of fewer than two files (and
  the page offers the merge for longer queues only). For a queue of at least two documents
  that the PDF library decodes, with pages \<open>docs\<close>, the merge triggers one download. If the
  documents have a page between them, the saved document has as many pages as the queued
  documents together, showing the pages of the documents in queue order; without numbering
  these are the pages unchanged; with numbering, page \<open>i\<close> (counted from 1 over the whole
  output) has got one more text, \<open>Page i of Total\<close>, at the anchor computed by \<open>label_xy\<close>
  from the page size and the measured width of the text, and at the two centre anchors the
  text is centred horizontally. If no document has a page, the saved document is the one
  blank page that the library adds on saving, without a label.
\<close>

theorem C7_concatenate:
  assumes "map (\<lambda>f. pdfLoad env (fi_file f)) (files s) = map Some docs"
  shows "(length (files s) < 2 \<longrightarrow>
            handleMerge env now s w = (s, alert ''Please add at least two PDF files to merge.'' w))
    \<and> (2 \<le> length (files s) \<longrightarrow>
         (\<exists>pages.
            downloads (snd (handleMerge env now s w))
              = downloads w @ [(''Noobu_Merged_'' @ show_nat now @ ''.pdf'', PdfDoc pages)]
          \<and> (concat docs = [] \<longrightarrow> pages = [blankPage env])
          \<and> (concat docs \<noteq> [] \<longrightarrow>
                length pages = sum_list (map length docs)
              \<and> map page_content pages = concat (map (map page_content) docs)
              \<and> (\<not> opt_enabled (options s) \<longrightarrow> pages = concat docs)
              \<and> (opt_enabled (options s) \<longrightarrow>
                   (\<forall>i < length pages.
                      \<exists>label.
                        pages ! i = (concat docs ! i)\<lparr>page_texts := page_texts (concat docs ! i) @ [label]\<rparr>
                      \<and> dt_text label = ''Page '' @ show_nat (i + 1) @ '' of '' @ show_nat (length pages)
                      \<and> (dt_x label, dt_y label)
                           = label_xy (opt_position (options s)) (page_width (concat docs ! i))
                               (page_height (concat docs ! i))
                               (widthOfTextAtSize env (dt_text label) (opt_fontSize (options s)))
                               (opt_fontSize (options s))
                      \<and> (opt_position (options s) = BottomCenter \<or> opt_position (options s) = TopCenter \<longrightarrow>
                           dt_x label + widthOfTextAtSize env (dt_text label) (opt_fontSize (options s)) / 2
                             = page_width (concat docs ! i) / 2))))))"
proof (intro conjI impI)
  assume "length (files s) < 2"
  then show "handleMerge env now s w = (s, alert ''Please add at least two PDF files to merge.'' w)"
    by (rule handleMerge_short_queue)
next
  assume two: "2 \<le> length (files s)"
  let ?merged = "concat docs"
  let ?numbered = "if opt_enabled (options s)
     then map (\<lambda>i. number_page env (options s) (length ?merged) i (?merged ! i)) [0 ..< length ?merged]
     else ?merged"
  let ?pages = "pdf_save env ?numbered"
  have dl: "downloads (snd (handleMerge env now s w))
        = downloads w @ [(''Noobu_Merged_'' @ show_nat now @ ''.pdf'', PdfDoc ?pages)]"
    unfolding handleMerge_success [OF two assms] by simp
  have empty: "concat docs = [] \<longrightarrow> ?pages = [blankPage env]"
  proof
    assume e: "concat docs = []"
    have "?numbered = []" unfolding e by simp
    then show "?pages = [blankPage env]" by (simp only: pdf_save_def simp_thms if_True)
  qed
  have full: "concat docs \<noteq> [] \<longrightarrow>
                length ?pages = sum_list (map length docs)
              \<and> map page_content ?pages = concat (map (map page_content) docs)
              \<and> (\<not> opt_enabled (options s) \<longrightarrow> ?pages = concat docs)
              \<and> (opt_enabled (options s) \<longrightarrow>
                   (\<forall>i < length ?pages.
                      \<exists>label.
                        ?pages ! i = (?merged ! i)\<lparr>page_texts := page_texts (?merged ! i) @ [label]\<rparr>
                      \<and> dt_text label = ''Page '' @ show_nat (i + 1) @ '' of '' @ show_nat (length ?pages)
                      \<and> (dt_x label, dt_y label)
                           = label_xy (opt_position (options s)) (page_width (?merged ! i))
                               (page_height (?merged ! i))
                               (widthOfTextAtSize env (dt_text label) (opt_fontSize (options s)))
                               (opt_fontSize (options s))
                      \<and> (opt_position (options s) = BottomCenter \<or> opt_position (options s) = TopCenter \<longrightarrow>
                           dt_x label + widthOfTextAtSize env (dt_text label) (opt_fontSize (options s)) / 2
                             = page_width (?merged ! i) / 2)))"
  proof
    assume ne: "concat docs \<noteq> []"
    then have "?numbered \<noteq> []" by simp
    then have saved: "?pages = ?numbered" by (simp only: pdf_save_def simp_thms if_False)
    have len: "length ?numbered = length ?merged" by simp
    have sum: "length ?merged = sum_list (map length docs)" by (simp add: length_concat)
    have content: "map page_content ?numbered = concat (map (map page_content) docs)"
    proof (cases "opt_enabled (options s)")
      case True
      have "map page_content ?numbered = map (\<lambda>i. page_content (?merged ! i)) [0 ..< length ?merged]"
        using True by (simp add: number_page_content)
      also have "\<dots> = map page_content ?merged"
        by (rule map_nth_fun)
      finally show ?thesis by (simp add: map_concat)
    next
      case False
      then show ?thesis by (simp add: map_concat)
    qed
    have labels: "opt_enabled (options s) \<longrightarrow>
         (\<forall>i < length ?numbered.
            \<exists>label.
              ?numbered ! i = (?merged ! i)\<lparr>page_texts := page_texts (?merged ! i) @ [label]\<rparr>
            \<and> dt_text label = ''Page '' @ show_nat (i + 1) @ '' of '' @ show_nat (length ?numbered)
            \<and> (dt_x label, dt_y label)
                 = label_xy (opt_position (options s)) (page_width (?merged ! i))
                     (page_height (?merged ! i))
                     (widthOfTextAtSize env (dt_text label) (opt_fontSize (options s)))
                     (opt_fontSize (options s))
            \<and> (opt_position (options s) = BottomCenter \<or> opt_position (options s) = TopCenter \<longrightarrow>
                 dt_x label + widthOfTextAtSize env (dt_text label) (opt_fontSize (options s)) / 2
                   = page_width (?merged ! i) / 2))"
    proof (intro impI allI)
      fix i
      assume en: "opt_enabled (options s)" and i: "i < length ?numbered"
      let ?p = "?merged ! i"
      let ?txt = "''Page '' @ show_nat (i + 1) @ '' of '' @ show_nat (length ?merged)"
      let ?tw = "widthOfTextAtSize env ?txt (opt_fontSize (options s))"
      let ?xy = "label_xy (opt_position (options s)) (page_width ?p) (page_height ?p) ?tw
                   (opt_fontSize (options s))"
      let ?label = "\<lparr>dt_text = ?txt, dt_x = fst ?xy, dt_y = snd ?xy,
                      dt_size = opt_fontSize (options s), dt_color = hexToRgb (opt_color (options s))\<rparr>"
      have nth: "?numbered ! i = number_page env (options s) (length ?merged) i ?p"
        using en i by simp
      have 1: "?numbered ! i = ?p\<lparr>page_texts := page_texts ?p @ [?label]\<rparr>"
        unfolding nth by (simp add: number_page_def label_text_def Let_def)
      have 2: "dt_text ?label = ''Page '' @ show_nat (i + 1) @ '' of '' @ show_nat (length ?numbered)"
        using en by simp
      have 3: "(dt_x ?label, dt_y ?label)
                 = label_xy (opt_position (options s)) (page_width ?p) (page_height ?p)
                     (widthOfTextAtSize env (dt_text ?label) (opt_fontSize (options s)))
                     (opt_fontSize (options s))"
        by simp
      have 4: "opt_position (options s) = BottomCenter \<or> opt_position (options s) = TopCenter \<longrightarrow>
                 dt_x ?label + widthOfTextAtSize env (dt_text ?label) (opt_fontSize (options s)) / 2
                   = page_width ?p / 2"
        using label_xy_centered [where pos = "opt_position (options s)" and width = "page_width ?p"
            and textWidth = ?tw and height = "page_height ?p" and fontSize = "opt_fontSize (options s)"]
        by simp
      from 1 2 3 4 show "\<exists>label.
                ?numbered ! i = ?p\<lparr>page_texts := page_texts ?p @ [label]\<rparr>
              \<and> dt_text label = ''Page '' @ show_nat (i + 1) @ '' of '' @ show_nat (length ?numbered)
              \<and> (dt_x label, dt_y label)
                   = label_xy (opt_position (options s)) (page_width ?p) (page_height ?p)
                       (widthOfTextAtSize env (dt_text label) (opt_fontSize (options s)))
                       (opt_fontSize (options s))
              \<and> (opt_position (options s) = BottomCenter \<or> opt_position (options s) = TopCenter \<longrightarrow>
                   dt_x label + widthOfTextAtSize env (dt_text label) (opt_fontSize (options s)) / 2
                     = page_width ?p / 2)"
        by (intro exI [of _ ?label] conjI)
    qed
    have not_en: "\<not> opt_enabled (options s) \<longrightarrow> ?numbered = ?merged" by simp
    have len': "length ?numbered = sum_list (map length docs)" using len sum by simp
    show "length ?pages = sum_list (map length docs)
              \<and> map page_content ?pages = concat (map (map page_content) docs)
              \<and> (\<not> opt_enabled (options s) \<longrightarrow> ?pages = concat docs)
              \<and> (opt_enabled (options s) \<longrightarrow>
                   (\<forall>i < length ?pages.
                      \<exists>label.
                        ?pages ! i = (?merged ! i)\<lparr>page_texts := page_texts (?merged ! i) @ [label]\<rparr>
                      \<and> dt_text label = ''Page '' @ show_nat (i + 1) @ '' of '' @ show_nat (length ?pages)
                      \<and> (dt_x label, dt_y label)
                           = label_xy (opt_position (options s)) (page_width (?merged ! i))
                               (page_height (?merged ! i))
                               (widthOfTextAtSize env (dt_text label) (opt_fontSize (options s)))
                               (opt_fontSize (options s))
                      \<and> (opt_position (options s) = BottomCenter \<or> opt_position (options s) = TopCenter \<longrightarrow>
                           dt_x label + widthOfTextAtSize env (dt_text label) (opt_fontSize (options s)) / 2
                             = page_width (?merged ! i) / 2)))"
      unfolding saved by (intro conjI len' content not_en labels)
  qed
  show "\<exists>pages.
            downloads (snd (handleMerge env now s w))
              = downloads w @ [(''Noobu_Merged_'' @ show_nat now @ ''.pdf'', PdfDoc pages)]
          \<and> (concat docs = [] \<longrightarrow> pages = [blankPage env])
          \<and> (concat docs \<noteq> [] \<longrightarrow>
                length pages = sum_list (map length docs)
              \<and> map page_content pages = concat (map (map page_content) docs)
              \<and> (\<not> opt_enabled (options s) \<longrightarrow> pages = concat docs)
              \<and> (opt_enabled (options s) \<longrightarrow>
                   (\<forall>i < length pages.
                      \<exists>label.
                        pages ! i = (concat docs ! i)\<lparr>page_texts := page_texts (concat docs ! i) @ [label]\<rparr>
                      \<and> dt_text label = ''Page '' @ show_nat (i + 1) @ '' of '' @ show_nat (length pages)
                      \<and> (dt_x label, dt_y label)
                           = label_xy (opt_position (options s)) (page_width (concat docs ! i))
                               (page_height (concat docs ! i))
                               (widthOfTextAtSize env (dt_text label) (opt_fontSize (options s)))
                               (opt_fontSize (options s))
                      \<and> (opt_position (options s) = BottomCenter \<or> opt_position (options s) = TopCenter \<longrightarrow>
                           dt_x label + widthOfTextAtSize env (dt_text label) (opt_fontSize (options s)) / 2
                             = page_width (concat docs ! i) / 2))))"
    by (rule exI [of _ ?pages]) (intro conjI dl empty full)
qed

theorem C7_concatenate_witness:
  "(\<exists>pages.
      downloads (snd (handleMerge ex_env 17 (ex_merge [2, 3] True) ex_world))
        = [(''Noobu_Merged_17.pdf'', PdfDoc pages)]
    \<and> length pages = 5
    \<and> map page_content pages = [200, 201, 300, 301, 302]
    \<and> map (\<lambda>p. map dt_text (page_texts p)) pages
        = [[''Page 1 of 5''], [''Page 2 of 5''], [''Page 3 of 5''], [''Page 4 of 5''], [''Page 5 of 5'']])
   \<and> downloads (snd (handleMerge ex_env 17 (ex_merge [0, 0] True) ex_world))
        = [(''Noobu_Merged_17.pdf'', PdfDoc [blankPage ex_env])]
   \<and> handleMerge ex_env 17 (ex_merge [3] True) ex_world
        = (ex_merge [3] True, alert ''Please add at least two PDF files to merge.'' ex_world)"
proof -
  let ?docs = "[map (ex_page 2) [0 ..< 2], map (ex_page 3) [0 ..< 3]]"
  have two: "2 \<le> length (files (ex_merge [2, 3] True))" by (simp add: ex_merge_def)
  have loads: "map (\<lambda>f. pdfLoad ex_env (fi_file f)) (files (ex_merge [2, 3] True)) = map Some ?docs"
    by (simp add: ex_merge_def ex_env_def ex_item_def ex_file_def)
  have en: "opt_enabled (options (ex_merge [2, 3] True))" by (simp add: ex_merge_def)
  have ne: "concat ?docs \<noteq> []" by (simp add: upt_rec)
  from C7_concatenate [OF loads, of 17 ex_world] two ne en obtain pages where
    dl: "downloads (snd (handleMerge ex_env 17 (ex_merge [2, 3] True) ex_world))
        = downloads ex_world @ [(''Noobu_Merged_'' @ show_nat 17 @ ''.pdf'', PdfDoc pages)]"
    and len: "length pages = sum_list (map length ?docs)"
    and content: "map page_content pages = concat (map (map page_content) ?docs)"
    and labels: "\<forall>i < length pages. \<exists>label.
              pages ! i = (concat ?docs ! i)\<lparr>page_texts := page_texts (concat ?docs ! i) @ [label]\<rparr>
            \<and> dt_text label = ''Page '' @ show_nat (i + 1) @ '' of '' @ show_nat (length pages)"
    by blast
  have n17: "show_nat 17 = ''17''" by code_simp
  have len5: "length pages = 5" using len by simp
  have upts: "[0 ..< 2] = [0, Suc 0]" "[0 ..< 3] = [0, Suc 0, 2]" by (simp_all add: upt_rec)
  have texts: "map dt_text (page_texts (pages ! i)) = [''Page '' @ show_nat (i + 1) @ '' of 5'']" if "i < 5" for i
  proof -
    have s5: "show_nat 5 = ''5''" by code_simp
    from labels that len5 obtain label where
      "pages ! i = (concat ?docs ! i)\<lparr>page_texts := page_texts (concat ?docs ! i) @ [label]\<rparr>"
      "dt_text label = ''Page '' @ show_nat (i + 1) @ '' of '' @ show_nat 5" by auto
    moreover have "page_texts (concat ?docs ! i) = []"
      using that unfolding upts by (auto simp: ex_page_def nth_Cons' less_Suc_eq numeral_eq_Suc)
    ultimately show ?thesis by (simp add: s5)
  qed
  have all_texts: "map (\<lambda>p. map dt_text (page_texts p)) pages
        = [[''Page 1 of 5''], [''Page 2 of 5''], [''Page 3 of 5''], [''Page 4 of 5''], [''Page 5 of 5'']]"
  proof -
    have d: "show_nat 1 = ''1''" "show_nat 2 = ''2''" "show_nat 3 = ''3''" "show_nat 4 = ''4''"
      "show_nat 5 = ''5''" "show_nat (Suc 0) = ''1''" "show_nat (Suc (Suc 0)) = ''2''"
      by code_simp+
    have "pages = [pages ! 0, pages ! 1, pages ! 2, pages ! 3, pages ! 4]"
      using len5 by (intro nth_equalityI) (auto simp: nth_Cons' less_Suc_eq numeral_eq_Suc)
    then have "map (\<lambda>p. map dt_text (page_texts p)) pages
      = [map dt_text (page_texts (pages ! 0)), map dt_text (page_texts (pages ! 1)),
         map dt_text (page_texts (pages ! 2)), map dt_text (page_texts (pages ! 3)),
         map dt_text (page_texts (pages ! 4))]"
      by (metis (no_types, lifting) list.simps(8,9))
    then show ?thesis
      using texts [of 0] texts [of 1] texts [of 2] texts [of 3] texts [of 4] by (simp add: d)
  qed
  have c: "map page_content pages = [200, 201, 300, 301, 302]"
    unfolding content upts by (simp add: ex_page_def)
  have first: "\<exists>pages.
      downloads (snd (handleMerge ex_env 17 (ex_merge [2, 3] True) ex_world))
        = [(''Noobu_Merged_17.pdf'', PdfDoc pages)]
    \<and> length pages = 5
    \<and> map page_content pages = [200, 201, 300, 301, 302]
    \<and> map (\<lambda>p. map dt_text (page_texts p)) pages
        = [[''Page 1 of 5''], [''Page 2 of 5''], [''Page 3 of 5''], [''Page 4 of 5''], [''Page 5 of 5'']]"
    using dl len5 c all_texts by (intro exI [of _ pages]) (simp add: n17 ex_world_def)
  have loads0: "map (\<lambda>f. pdfLoad ex_env (fi_file f)) (files (ex_merge [0, 0] True)) = map Some [[], []]"
    by (simp add: ex_merge_def ex_env_def ex_item_def ex_file_def)
  have two0: "2 \<le> length (files (ex_merge [0, 0] True))" by (simp add: ex_merge_def)
  from C7_concatenate [OF loads0, of 17 ex_world] two0
  have second: "downloads (snd (handleMerge ex_env 17 (ex_merge [0, 0] True) ex_world))
        = [(''Noobu_Merged_17.pdf'', PdfDoc [blankPage ex_env])]"
    by (auto simp: n17 ex_world_def)
  have loads1: "map (\<lambda>f. pdfLoad ex_env (fi_file f)) (files (ex_merge [3] True))
      = map Some [map (ex_page 3) [0 ..< 3]]"
    by (simp add: ex_merge_def ex_env_def ex_item_def ex_file_def)
  from C7_concatenate [OF loads1, of 17 ex_world]
  have third: "handleMerge ex_env 17 (ex_merge [3] True) ex_world
        = (ex_merge [3] True, alert ''Please add at least two PDF files to merge.'' ex_world)"
    by (simp add: ex_merge_def)
  from first second third show ?thesis by (intro conjI)
qed

text \<open>
  The claim speaks of every queue of documents. Two documents without pages are merged
  into a file of one page, not of \<open>0 + 0\<close> pages.
\<close>

theorem C7_empty_documents_counterexample:
  "map (\<lambda>f. map_option length (pdfLoad ex_env (fi_file f))) (files (ex_merge [0, 0] False))
     = [Some 0, Some 0]
   \<and> downloads (snd (handleMerge ex_env 17 (ex_merge [0, 0] False) ex_world))
     = [(''Noobu_Merged_17.pdf'', PdfDoc [blankPage ex_env])]
   \<and> length [blankPage ex_env] \<noteq> sum_list [0, 0]"
  by code_simp

section \<open>Proofs: progress\<close>

lemma exponent_of_bounds:
  assumes "0 < x"
  shows "2 powi (exponent_of x) \<le> x \<and> x < 2 powi (exponent_of x + 1)"
proof -
  obtain p q where pq: "quotient_of x = (p, q)" by (cases "quotient_of x")
  then have q: "0 < q" and x: "x = of_int p / of_int q"
    by (simp_all add: quotient_of_denom_pos quotient_of_div)
  with assms have p: "0 < p" by (simp add: zero_less_divide_iff)
  let ?a = "bitlen p" and ?b = "bitlen q"
  have a1: "1 \<le> ?a" and b1: "1 \<le> ?b"
    using p q bitlen_eq_zero_iff [of p] bitlen_eq_zero_iff [of q] bitlen_nonneg [of p] bitlen_nonneg [of q]
    by linarith+
  have pa: "(2::rat) powi (?a - 1) \<le> of_int p" "of_int p < (2::rat) powi ?a"
  proof -
    from bitlen_bounds [OF p] have "2 ^ nat (?a - 1) \<le> p" "p < 2 ^ nat ?a" by simp_all
    then have "(of_int (2 ^ nat (?a - 1)) :: rat) \<le> of_int p" "(of_int p :: rat) < of_int (2 ^ nat ?a)"
      by (simp_all only: of_int_le_iff of_int_less_iff)
    then show "(2::rat) powi (?a - 1) \<le> of_int p" "of_int p < (2::rat) powi ?a"
      using a1 by (simp_all add: power_int_def)
  qed
  have qb: "(2::rat) powi (?b - 1) \<le> of_int q" "of_int q < (2::rat) powi ?b"
  proof -
    from bitlen_bounds [OF q] have "2 ^ nat (?b - 1) \<le> q" "q < 2 ^ nat ?b" by simp_all
    then have "(of_int (2 ^ nat (?b - 1)) :: rat) \<le> of_int q" "(of_int q :: rat) < of_int (2 ^ nat ?b)"
      by (simp_all only: of_int_le_iff of_int_less_iff)
    then show "(2::rat) powi (?b - 1) \<le> of_int q" "of_int q < (2::rat) powi ?b"
      using b1 by (simp_all add: power_int_def)
  qed
  have qpos: "(0::rat) < of_int q" using q by simp
  have upper: "x < 2 powi (?a - ?b + 1)"
  proof -
    have "x < 2 powi ?a / of_int q" unfolding x using pa(2) qpos by (simp add: divide_strict_right_mono)
    also have "\<dots> \<le> 2 powi ?a / 2 powi (?b - 1)"
      using qb(1) qpos by (intro divide_left_mono mult_pos_pos) simp_all
    also have "\<dots> = 2 powi (?a - ?b + 1)"
      by (simp add: power_int_diff [symmetric] algebra_simps)
    finally show ?thesis .
  qed
  have lower: "2 powi (?a - ?b - 1) < x"
  proof -
    have "(2::rat) powi (?a - ?b - 1) = 2 powi (?a - 1) / 2 powi ?b"
      by (simp add: power_int_diff [symmetric] algebra_simps)
    also have "\<dots> < 2 powi (?a - 1) / of_int q"
      using qb(2) qpos by (intro divide_strict_left_mono) simp_all
    also have "\<dots> \<le> x" unfolding x using pa(1) qpos by (simp add: divide_right_mono)
    finally show ?thesis .
  qed
  show ?thesis
  proof (cases "2 powi (?a - ?b) \<le> x")
    case True
    then have "exponent_of x = ?a - ?b" by (simp add: exponent_of_def pq Let_def)
    with True upper show ?thesis by simp
  next
    case False
    then have "exponent_of x = ?a - ?b - 1" by (simp add: exponent_of_def pq Let_def)
    with False lower show ?thesis by simp
  qed
qed

lemma round_half_even_bounds: "of_int (round_half_even q) \<le> q + 1 / 2 \<and> q - 1 / 2 \<le> of_int (round_half_even q)"
  unfolding round_half_even_def Let_def by (auto; linarith)

lemma round_half_even_of_int [simp]: "round_half_even (of_int z) = z"
  by (simp add: round_half_even_def)

lemma round_half_even_mono:
  assumes "q \<le> q'"
  shows "round_half_even q \<le> round_half_even q'"
proof -
  have fl: "\<lfloor>q\<rfloor> \<le> \<lfloor>q'\<rfloor>" using assms by (rule floor_mono)
  show ?thesis
  proof (cases "\<lfloor>q\<rfloor> = \<lfloor>q'\<rfloor>")
    case True
    with assms show ?thesis
      unfolding round_half_even_def Let_def by auto
  next
    case False
    with fl have "\<lfloor>q\<rfloor> + 1 \<le> \<lfloor>q'\<rfloor>" by simp
    moreover have "round_half_even q \<le> \<lfloor>q\<rfloor> + 1" "\<lfloor>q'\<rfloor> \<le> round_half_even q'"
      unfolding round_half_even_def Let_def by auto
    ultimately show ?thesis by linarith
  qed
qed

lemma to_double_range:
  assumes "0 < x"
  shows "2 powi (exponent_of x) \<le> to_double x \<and> to_double x \<le> 2 powi (exponent_of x + 1)"
proof -
  let ?e = "exponent_of x"
  let ?u = "(2::rat) powi (?e - 52)"
  have u: "0 < ?u" by simp
  have e: "2 powi ?e = ?u * 2 ^ 52" "2 powi (?e + 1) = ?u * 2 ^ 53"
    by (simp_all add: power_int_diff power_int_add)
  from exponent_of_bounds [OF assms] have "?u * 2 ^ 52 \<le> x" "x < ?u * 2 ^ 53"
    unfolding e by simp_all
  then have "(of_int (2 ^ 52) :: rat) \<le> x / ?u" "x / ?u \<le> of_int (2 ^ 53)"
    using u by (simp_all add: pos_le_divide_eq pos_divide_le_eq mult.commute less_imp_le)
  then have "round_half_even (of_int (2 ^ 52)) \<le> round_half_even (x / ?u)"
    "round_half_even (x / ?u) \<le> round_half_even (of_int (2 ^ 53))"
    by (simp_all only: round_half_even_mono)
  then have "(2 ^ 52 :: int) \<le> round_half_even (x / ?u)" "round_half_even (x / ?u) \<le> (2 ^ 53 :: int)"
    by (simp_all only: round_half_even_of_int)
  then have "(of_int (2 ^ 52) :: rat) \<le> of_int (round_half_even (x / ?u))"
    "(of_int (round_half_even (x / ?u)) :: rat) \<le> of_int (2 ^ 53)"
    by (simp_all only: of_int_le_iff)
  then have "?u * 2 ^ 52 \<le> of_int (round_half_even (x / ?u)) * ?u"
    "of_int (round_half_even (x / ?u)) * ?u \<le> ?u * 2 ^ 53"
    using u by (simp_all add: mult.commute)
  moreover have "to_double x = of_int (round_half_even (x / ?u)) * ?u"
    using assms by (simp add: to_double_def Let_def)
  ultimately show ?thesis unfolding e by simp
qed

lemma to_double_mono:
  assumes "0 \<le> x" "x \<le> y"
  shows "to_double x \<le> to_double y"
proof (cases "x = 0")
  case True
  show ?thesis
  proof (cases "y = 0")
    case True
    with \<open>x = 0\<close> show ?thesis by simp
  next
    case False
    with assms have "0 < y" by simp
    from to_double_range [OF this] have "0 < to_double y"
      by (meson less_le_trans zero_less_numeral zero_less_power_int)
    with True show ?thesis by (simp add: to_double_def)
  qed
next
  case False
  with assms have x: "0 < x" and y: "0 < y" by simp_all
  let ?ex = "exponent_of x" and ?ey = "exponent_of y"
  consider "?ex = ?ey" | "?ex < ?ey" | "?ey < ?ex" by linarith
  then show ?thesis
  proof cases
    case 1
    let ?u = "(2::rat) powi (?ex - 52)"
    have "x / ?u \<le> y / ?u" using assms(2) by (simp add: divide_right_mono)
    then have "round_half_even (x / ?u) \<le> round_half_even (y / ?u)" by (rule round_half_even_mono)
    then have "(of_int (round_half_even (x / ?u)) :: rat) * ?u \<le> of_int (round_half_even (y / ?u)) * ?u"
      by (intro mult_right_mono) simp_all
    then show ?thesis using x y 1 by (simp add: to_double_def Let_def)
  next
    case 2
    have "to_double x \<le> 2 powi (?ex + 1)" using to_double_range [OF x] by simp
    also have "\<dots> \<le> 2 powi ?ey" using 2 by (intro power_int_increasing) simp_all
    also have "\<dots> \<le> to_double y" using to_double_range [OF y] by simp
    finally show ?thesis .
  next
    case 3
    have "y < 2 powi (?ey + 1)" using exponent_of_bounds [OF y] by simp
    also have "\<dots> \<le> 2 powi ?ex" using 3 by (intro power_int_increasing) simp_all
    also have "\<dots> \<le> x" using exponent_of_bounds [OF x] by simp
    finally show ?thesis using assms(2) by simp
  qed
qed

lemma to_double_nonneg: "0 \<le> x \<Longrightarrow> 0 \<le> to_double x"
  using to_double_mono [of 0 x] by (simp add: to_double_def)

lemma js_round_mono: "x \<le> y \<Longrightarrow> js_round x \<le> js_round y"
  by (simp add: js_round_def floor_mono)

lemma js_round_of_nat: "js_round (of_nat b) = int b"
  unfolding js_round_def by linarith

lemma percent_of_mono: "j \<le> k \<Longrightarrow> percent_of j n b \<le> percent_of k n b"
proof -
  assume "j \<le> k"
  then have "(of_nat j :: rat) / of_nat n \<le> of_nat k / of_nat n"
    by (simp add: divide_right_mono)
  then have "to_double (of_nat j / of_nat n) \<le> to_double (of_nat k / of_nat n)"
    by (intro to_double_mono) simp_all
  then have "to_double (of_nat j / of_nat n) * of_nat b \<le> to_double (of_nat k / of_nat n) * of_nat b"
    by (rule mult_right_mono) simp
  moreover have "0 \<le> to_double (of_nat j / of_nat n) * of_nat b"
    by (intro mult_nonneg_nonneg to_double_nonneg) simp_all
  ultimately have "to_double (to_double (of_nat j / of_nat n) * of_nat b)
      \<le> to_double (to_double (of_nat k / of_nat n) * of_nat b)"
    by (intro to_double_mono)
  then show ?thesis
    unfolding percent_of_def by (intro nat_mono js_round_mono)
qed

lemma to_double_exact: "to_double 1 = 1" "to_double 50 = 50" "to_double 100 = 100"
  by code_simp+

lemma percent_of_full:
  assumes "0 < n"
  shows "percent_of n n 50 = 50" "percent_of n n 100 = 100"
  using assms by (simp_all add: percent_of_def to_double_exact js_round_def) linarith+

lemma percent_of_le:
  assumes "k \<le> n" "0 < n"
  shows "percent_of k n 50 \<le> 50" "percent_of k n 100 \<le> 100"
  using percent_of_mono [OF assms(1), of n 50] percent_of_mono [OF assms(1), of n 100]
    percent_of_full [OF assms(2)] by simp_all

lemma sorted_map_upt: "(\<And>i j. i \<le> j \<Longrightarrow> f i \<le> (f j :: nat)) \<Longrightarrow> sorted (map f [a ..< b])"
proof (induction b)
  case 0
  then show ?case by simp
next
  case (Suc b)
  show ?case
  proof (cases "a \<le> b")
    case True
    then have "sorted (map f [a ..< b] @ [f b])"
      using Suc by (auto simp: sorted_append)
    with True show ?thesis by simp
  next
    case False
    then show ?thesis by simp
  qed
qed

lemma phase_one_props:
  "sorted (phase_one k)" "list_all (\<lambda>v. v \<le> 50) (phase_one k)"
  "0 < k \<Longrightarrow> last (phase_one k) = 50" "0 < k \<Longrightarrow> phase_one k \<noteq> []"
proof -
  show "sorted (phase_one k)"
    unfolding phase_one_def by (rule sorted_map_upt) (simp add: percent_of_mono)
  show "list_all (\<lambda>v. v \<le> 50) (phase_one k)"
    by (auto simp: phase_one_def list_all_iff intro!: percent_of_le(1))
  show "0 < k \<Longrightarrow> last (phase_one k) = 50"
    by (cases k) (simp_all add: phase_one_def percent_of_full del: upt_Suc add: last_map)
  show "0 < k \<Longrightarrow> phase_one k \<noteq> []" by (simp add: phase_one_def)
qed

lemma phase_two_props:
  "sorted (phase_two t)" "list_all (\<lambda>v. 50 \<le> v \<and> v \<le> 100) (phase_two t)"
  "0 < t \<Longrightarrow> last (phase_two t) = 100" "0 < t \<Longrightarrow> phase_two t \<noteq> []"
proof -
  show "sorted (phase_two t)"
    unfolding phase_two_def by (rule sorted_map_upt) (simp add: percent_of_mono)
  have "percent_of (i + 1) t 50 \<le> 50" if "i < t" for i
    using that by (intro percent_of_le(1)) simp_all
  then show "list_all (\<lambda>v. 50 \<le> v \<and> v \<le> 100) (phase_two t)"
    by (auto simp: phase_two_def list_all_iff)
  show "0 < t \<Longrightarrow> last (phase_two t) = 100"
    by (cases t) (simp_all add: phase_two_def percent_of_full del: upt_Suc add: last_map)
  show "0 < t \<Longrightarrow> phase_two t \<noteq> []" by (simp add: phase_two_def)
qed

lemma burst_reports_props:
  "sorted (burst_reports n)" "list_all (\<lambda>v. v \<le> 100) (burst_reports n)"
  "0 < n \<Longrightarrow> last (burst_reports n) = 100" "0 < n \<Longrightarrow> burst_reports n \<noteq> []"
proof -
  show "sorted (burst_reports n)"
    unfolding burst_reports_def by (rule sorted_map_upt) (simp add: percent_of_mono)
  show "list_all (\<lambda>v. v \<le> 100) (burst_reports n)"
    by (auto simp: burst_reports_def list_all_iff intro!: percent_of_le(2))
  show "0 < n \<Longrightarrow> last (burst_reports n) = 100"
    by (cases n) (simp_all add: burst_reports_def percent_of_full del: upt_Suc add: last_map)
  show "0 < n \<Longrightarrow> burst_reports n \<noteq> []" by (simp add: burst_reports_def)
qed

lemma merge_reported:
  assumes "2 \<le> length (files s)"
    and "map (\<lambda>f. pdfLoad env (fi_file f)) (files s) = map Some docs"
  shows "reported (snd (handleMerge env now s w)) =
     reported w @ 0 # phase_one (length (files s))
       @ (if opt_enabled (options s) then phase_two (length (concat docs)) else [100])"
    and "mergeProgress (fst (handleMerge env now s w)) =
     last (phase_one (length (files s))
       @ (if opt_enabled (options s) then phase_two (length (concat docs)) else [100]))"
  unfolding handleMerge_success [OF assms] phase_one_def phase_two_def by simp_all

lemma burst_loop_success:
  assumes "\<forall>i \<in> set js. i < length src"
  shows "burst_loop src n js z (s, w) =
     (Some (foldl (\<lambda>z i. zip_file (''Page_'' @ show_nat (i + 1) @ ''.pdf'') [src ! i] z) z js),
      (s\<lparr>progress := last (progress s # map (\<lambda>i. percent_of (i + 1) n 100) js)\<rparr>,
       w\<lparr>reported := reported w @ map (\<lambda>i. percent_of (i + 1) n 100) js\<rparr>))"
  using assms
  by (induction js arbitrary: z s w) (simp_all add: copyPages_def setProgress_pair report_def)

lemma burst_job_reported:
  assumes "splitMode s = AllMode" "pdfLoad env (pm_file info) = Some src"
    and "pm_pageCount info \<le> length src"
  shows "reported (snd (split_job env info s w)) = reported w @ 0 # burst_reports (pm_pageCount info)"
    and "progress (fst (split_job env info s w)) = last (0 # burst_reports (pm_pageCount info))"
    and "error (fst (split_job env info s w)) = None"
    and "length (downloads (snd (split_job env info s w))) = length (downloads w) + 1"
proof -
  have b: "\<forall>i \<in> set [0 ..< pm_pageCount info]. i < length src" using assms(3) by simp
  show "reported (snd (split_job env info s w)) = reported w @ 0 # burst_reports (pm_pageCount info)"
    "progress (fst (split_job env info s w)) = last (0 # burst_reports (pm_pageCount info))"
    "error (fst (split_job env info s w)) = None"
    "length (downloads (snd (split_job env info s w))) = length (downloads w) + 1"
    using assms(1,2)
    by (simp_all add: split_job_def setProgress_pair Let_def burst_loop_success [OF b]
        downloadBlob_eq report_def decode_call_def burst_reports_def)
qed

lemma handleSplit_reported:
  assumes "pdfInfo s = Some info"
  shows "reported (snd (handleSplit env s w)) = reported (snd (split_job env info s w)) @ [0]"
  using assms
  by (simp add: handleSplit_def split_cleanup_def setProgress_def report_def split: prod.splits)

lemma sorted_phases:
  assumes "sorted P1" "sorted P2" "list_all (\<lambda>v. v \<le> (50::nat)) P1" "list_all (\<lambda>v. 50 \<le> v \<and> v \<le> (100::nat)) P2"
  shows "sorted (0 # P1 @ P2)"
  using assms by (fastforce simp: sorted_append list_all_iff)

text \<open>
  The values of a run that stops early: a prefix of the values of the loop.
\<close>

lemma merge_loop_reported:
  "\<exists>m \<le> length items.
     reported (snd (snd (merge_loop env n i items merged (s, w))))
       = reported w @ map (\<lambda>j. percent_of (j + 1) n 50) [i ..< i + m]"
proof (induction items arbitrary: i merged s w)
  case Nil
  show ?case by simp
next
  case (Cons item rest)
  show ?case
  proof (cases "pdfLoad env (fi_file item)")
    case None
    then have "reported (snd (snd (merge_loop env n i (item # rest) merged (s, w))))
       = reported w @ map (\<lambda>j. percent_of (j + 1) n 50) [i ..< i + 0]"
      by (simp add: decode_call_def)
    then show ?thesis by (intro exI [of _ 0]) simp
  next
    case (Some pdf)
    let ?s = "s\<lparr>mergeProgress := percent_of (i + 1) n 50\<rparr>"
    let ?w = "report (percent_of (i + 1) n 50) (decode_call (fi_file item) w)"
    from Cons.IH [of "i + 1" "merged @ pdf" ?s ?w] obtain m where m: "m \<le> length rest"
      and r: "reported (snd (snd (merge_loop env n (i + 1) rest (merged @ pdf) (?s, ?w))))
       = reported ?w @ map (\<lambda>j. percent_of (j + 1) n 50) [i + 1 ..< i + 1 + m]"
      by blast
    have "[i ..< i + Suc m] = i # [i + 1 ..< i + 1 + m]" by (simp add: upt_rec)
    then have "reported (snd (snd (merge_loop env n i (item # rest) merged (s, w))))
       = reported w @ map (\<lambda>j. percent_of (j + 1) n 50) [i ..< i + Suc m]"
      using r by (simp add: Some setMergeProgress_pair report_def decode_call_def)
    with m show ?thesis by (intro exI [of _ "Suc m"]) simp
  qed
qed

lemma sorted_prefix_reports:
  assumes "m \<le> k"
  shows "sorted (0 # map (\<lambda>j. percent_of (j + 1) k 50) [0 ..< m])"
    and "list_all (\<lambda>v. v \<le> 100) (0 # map (\<lambda>j. percent_of (j + 1) k 50) [0 ..< m])"
proof -
  show "sorted (0 # map (\<lambda>j. percent_of (j + 1) k 50) [0 ..< m])"
    using sorted_map_upt [of "\<lambda>j. percent_of (j + 1) k 50" 0 m] by (simp add: percent_of_mono)
  have "percent_of (j + 1) k 50 \<le> 100" if "j < m" for j
    using percent_of_le(1) [of "j + 1" k] that assms by simp
  then show "list_all (\<lambda>v. v \<le> 100) (0 # map (\<lambda>j. percent_of (j + 1) k 50) [0 ..< m])"
    by (auto simp: list_all_iff)
qed

lemma loads_total:
  "list_all (\<lambda>f. pdfLoad env (fi_file f) \<noteq> None) items \<Longrightarrow>
     \<exists>docs. map (\<lambda>f. pdfLoad env (fi_file f)) items = map Some docs"
proof (induction items)
  case Nil
  then show ?case by simp
next
  case (Cons item rest)
  then obtain docs d where "map (\<lambda>f. pdfLoad env (fi_file f)) rest = map Some docs"
    "pdfLoad env (fi_file item) = Some d" by auto
  then have "map (\<lambda>f. pdfLoad env (fi_file f)) (item # rest) = map Some (d # docs)" by simp
  then show ?case by blast
qed

lemma sorted_merge_success:
  "sorted (0 # phase_one k @ (if en then phase_two t else [100]))"
  "list_all (\<lambda>v. v \<le> 100) (0 # phase_one k @ (if en then phase_two t else [100]))"
proof -
  have p2: "sorted (if en then phase_two t else [100])"
    "list_all (\<lambda>v. 50 \<le> v \<and> v \<le> 100) (if en then phase_two t else [100])"
    by (simp_all add: phase_two_props)
  show "sorted (0 # phase_one k @ (if en then phase_two t else [100]))"
    by (rule sorted_phases) (rule phase_one_props p2)+
  show "list_all (\<lambda>v. v \<le> 100) (0 # phase_one k @ (if en then phase_two t else [100]))"
    using phase_one_props(2) [of k] p2(2) by (fastforce simp: list_all_iff)
qed

lemma handleMerge_any_run:
  "\<exists>R. reported (snd (handleMerge env now s w)) = reported w @ R \<and> sorted R
       \<and> list_all (\<lambda>v. v \<le> 100) R"
proof (cases "length (files s) < 2")
  case True
  then have "reported (snd (handleMerge env now s w)) = reported w @ []"
    by (simp add: handleMerge_def alert_def)
  then show ?thesis by (intro exI [of _ "[]"]) simp
next
  case False
  then have two: "2 \<le> length (files s)" by simp
  show ?thesis
  proof (cases "list_all (\<lambda>f. pdfLoad env (fi_file f) \<noteq> None) (files s)")
    case True
    from loads_total [OF this] obtain docs where
      docs: "map (\<lambda>f. pdfLoad env (fi_file f)) (files s) = map Some docs" by blast
    let ?R = "0 # phase_one (length (files s))
       @ (if opt_enabled (options s) then phase_two (length (concat docs)) else [100])"
    have "reported (snd (handleMerge env now s w)) = reported w @ ?R"
      by (rule merge_reported(1) [OF two docs])
    then show ?thesis
      by (intro exI [of _ ?R] conjI sorted_merge_success)
  next
    case failed: False
    let ?k = "length (files s)"
    let ?s0 = "s\<lparr>isMerging := True, mergeProgress := 0\<rparr>"
    let ?run = "merge_loop env ?k 0 (files s) [] (?s0, report 0 w)"
    have none: "fst ?run = None" using failed by (rule merge_loop_failure)
    from merge_loop_reported [of "files s" env ?k 0 "[]" ?s0 "report 0 w"] obtain m where
      m: "m \<le> ?k" and r: "reported (snd (snd ?run))
        = reported (report 0 w) @ map (\<lambda>j. percent_of (j + 1) ?k 50) [0 ..< 0 + m]" by blast
    let ?R = "0 # map (\<lambda>j. percent_of (j + 1) ?k 50) [0 ..< m]"
    have "reported (snd (handleMerge env now s w)) = reported (snd (snd ?run))"
      using two none
      by (cases ?run) (auto simp: handleMerge_def setMergeProgress_pair alert_def)
    then have "reported (snd (handleMerge env now s w)) = reported w @ ?R"
      using r by (simp add: report_def)
    then show ?thesis
      by (intro exI [of _ ?R] conjI sorted_prefix_reports [OF m])
  qed
qed

lemma burst_loop_reported:
  "\<exists>m \<le> length js.
     reported (snd (snd (burst_loop src n js z (s, w))))
       = reported w @ map (\<lambda>i. percent_of (i + 1) n 100) (take m js)"
proof (induction js arbitrary: z s w)
  case Nil
  show ?case by simp
next
  case (Cons i rest)
  show ?case
  proof (cases "copyPages src [i]")
    case None
    then have "reported (snd (snd (burst_loop src n (i # rest) z (s, w))))
       = reported w @ map (\<lambda>i. percent_of (i + 1) n 100) (take 0 (i # rest))"
      by simp
    then show ?thesis by (intro exI [of _ 0]) simp
  next
    case (Some pages)
    let ?z = "zip_file (''Page_'' @ show_nat (i + 1) @ ''.pdf'') pages z"
    let ?s = "s\<lparr>progress := percent_of (i + 1) n 100\<rparr>"
    let ?w = "report (percent_of (i + 1) n 100) w"
    from Cons.IH [of ?z ?s ?w] obtain m where m: "m \<le> length rest"
      and r: "reported (snd (snd (burst_loop src n rest ?z (?s, ?w))))
       = reported ?w @ map (\<lambda>i. percent_of (i + 1) n 100) (take m rest)"
      by blast
    have "reported (snd (snd (burst_loop src n (i # rest) z (s, w))))
       = reported w @ map (\<lambda>i. percent_of (i + 1) n 100) (take (Suc m) (i # rest))"
      using r by (simp add: Some setProgress_pair report_def)
    with m show ?thesis by (intro exI [of _ "Suc m"]) simp
  qed
qed

lemma sorted_burst_prefix:
  assumes "m \<le> n"
  shows "sorted (0 # map (\<lambda>i. percent_of (i + 1) n 100) [0 ..< m])"
    and "list_all (\<lambda>v. v \<le> 100) (0 # map (\<lambda>i. percent_of (i + 1) n 100) [0 ..< m])"
proof -
  show "sorted (0 # map (\<lambda>i. percent_of (i + 1) n 100) [0 ..< m])"
    using sorted_map_upt [of "\<lambda>i. percent_of (i + 1) n 100" 0 m] by (simp add: percent_of_mono)
  have "percent_of (i + 1) n 100 \<le> 100" if "i < m" for i
    using percent_of_le(2) [of "i + 1" n] that assms by simp
  then show "list_all (\<lambda>v. v \<le> 100) (0 # map (\<lambda>i. percent_of (i + 1) n 100) [0 ..< m])"
    by (auto simp: list_all_iff)
qed

lemma split_job_any_run:
  "\<exists>R. reported (snd (split_job env info s w)) = reported w @ R \<and> sorted R
       \<and> list_all (\<lambda>v. v \<le> 100) R"
proof (cases "pdfLoad env (pm_file info)")
  case None
  then have "reported (snd (split_job env info s w)) = reported w @ [0]"
    by (simp add: split_job_def setProgress_pair report_def decode_call_def)
  then show ?thesis by (intro exI [of _ "[0]"]) simp
next
  case (Some src)
  show ?thesis
  proof (cases "splitMode s")
    case RangeMode
    have "reported (snd (split_job env info s w)) = reported w @ [0]
        \<or> reported (snd (split_job env info s w)) = reported w @ [0, 100]"
      using Some RangeMode
      by (auto simp: split_job_def setProgress_pair report_def decode_call_def Let_def
          downloadBlob_eq split: option.splits)
    then show ?thesis
    proof
      assume "reported (snd (split_job env info s w)) = reported w @ [0]"
      then show ?thesis by (intro exI [of _ "[0]"]) simp
    next
      assume "reported (snd (split_job env info s w)) = reported w @ [0, 100]"
      then show ?thesis by (intro exI [of _ "[0, 100]"]) simp
    qed
  next
    case AllMode
    let ?n = "pm_pageCount info"
    let ?s1 = "s\<lparr>isProcessing := True, progress := 0, error := None\<rparr>"
    let ?w1 = "decode_call (pm_file info) (report 0 w)"
    let ?run = "burst_loop src ?n [0 ..< ?n] [] (?s1, ?w1)"
    from burst_loop_reported [of "[0 ..< ?n]" src ?n "[]" ?s1 ?w1] obtain m where
      m: "m \<le> ?n" and r: "reported (snd (snd ?run))
        = reported ?w1 @ map (\<lambda>i. percent_of (i + 1) ?n 100) (take m [0 ..< ?n])" by auto
    have tk: "take m [0 ..< ?n] = [0 ..< m]" using m by (simp add: take_upt)
    let ?R = "0 # map (\<lambda>i. percent_of (i + 1) ?n 100) [0 ..< m]"
    have "reported (snd (split_job env info s w)) = reported (snd (snd ?run))"
      using Some AllMode
      by (cases ?run) (auto simp: split_job_def setProgress_pair Let_def downloadBlob_eq
          split: option.splits)
    then have "reported (snd (split_job env info s w)) = reported w @ ?R"
      using r unfolding tk by (simp add: report_def decode_call_def)
    then show ?thesis
      by (intro exI [of _ ?R] conjI sorted_burst_prefix [OF m])
  qed
qed

lemma merge_final:
  assumes "2 \<le> length (files s)"
    and "map (\<lambda>f. pdfLoad env (fi_file f)) (files s) = map Some docs"
  shows "(opt_enabled (options s) \<longrightarrow> concat docs \<noteq> []) \<Longrightarrow>
           last (reported (snd (handleMerge env now s w))) = 100
         \<and> mergeProgress (fst (handleMerge env now s w)) = 100"
    and "opt_enabled (options s) \<and> concat docs = [] \<Longrightarrow>
           last (reported (snd (handleMerge env now s w))) = 50
         \<and> mergeProgress (fst (handleMerge env now s w)) = 50"
proof -
  let ?P1 = "phase_one (length (files s))"
  let ?P2 = "if opt_enabled (options s) then phase_two (length (concat docs)) else [100]"
  have k: "0 < length (files s)" using assms(1) by auto
  have r: "reported (snd (handleMerge env now s w)) = reported w @ 0 # ?P1 @ ?P2"
    by (rule merge_reported(1) [OF assms])
  have m: "mergeProgress (fst (handleMerge env now s w)) = last (?P1 @ ?P2)"
    by (rule merge_reported(2) [OF assms])
  {
    assume "opt_enabled (options s) \<longrightarrow> concat docs \<noteq> []"
    then have p2: "?P2 \<noteq> []" "last ?P2 = 100" by (simp_all add: phase_two_props)
    show "last (reported (snd (handleMerge env now s w))) = 100
         \<and> mergeProgress (fst (handleMerge env now s w)) = 100"
      unfolding r m using p2 by simp
  }
  {
    assume "opt_enabled (options s) \<and> concat docs = []"
    then have p2: "?P2 = []" by (simp add: phase_two_def)
    show "last (reported (snd (handleMerge env now s w))) = 50
         \<and> mergeProgress (fst (handleMerge env now s w)) = 50"
      unfolding r m p2 using phase_one_props(3,4) [OF k] by simp
  }
qed

lemma burst_final:
  assumes "splitMode s = AllMode" "pdfLoad env (pm_file info) = Some src"
    and "pm_pageCount info \<le> length src" and "0 < pm_pageCount info"
  shows "last (reported (snd (split_job env info s w))) = 100"
    and "progress (fst (split_job env info s w)) = 100"
  unfolding burst_job_reported(1,2) [OF assms(1,2,3)]
  using burst_reports_props(3,4) [OF assms(4)] by simp_all

text \<open>
  Claim C8, as the code has it. The values that a job reports are the list appended to
  \<open>reported\<close>.

  \<^item> Every run of \<open>handleMerge\<close> and every run of the job of \<open>handleSplit\<close>, whether it
    completes or fails, reports a non-decreasing list of values that are at most 100.
  \<^item> The clean-up of \<open>handleSplit\<close> (SplitPDF.tsx:195-198) then reports 0.
  \<^item> A merge of \<open>k \<ge> 2\<close> files that all load reports 0, then
    \<open>round (((j + 1) / k) * 50)\<close> for \<open>j = 0 .. k - 1\<close> (MergePDF.tsx:139), which are at most
    50 and end at 50, then, with numbering, \<open>50 + round (((i + 1) / t) * 50)\<close> for the
    \<open>t\<close> pages of the merged document (MergePDF.tsx:192), which lie between 50 and 100,
    and without numbering the single value 100 (MergePDF.tsx:195). The last value is 100
    unless numbering is enabled and the merged document has no page: then the numbering
    loop reports nothing and the run ends at 50.
  \<^item> A burst of a document of \<open>n\<close> pages reports 0, then \<open>round (((i + 1) / n) * 100)\<close> for
    \<open>i = 0 .. n - 1\<close> (SplitPDF.tsx:187), and ends at 100 when \<open>n > 0\<close>.
\<close>

theorem C8_progress:
  "(\<exists>R. reported (snd (handleMerge env now s w)) = reported w @ R \<and> sorted R
         \<and> list_all (\<lambda>v. v \<le> 100) R)
   \<and> (\<exists>R. reported (snd (split_job env info ss w)) = reported w @ R \<and> sorted R
         \<and> list_all (\<lambda>v. v \<le> 100) R)
   \<and> (pdfInfo ss = Some info \<longrightarrow>
        reported (snd (handleSplit env ss w)) = reported (snd (split_job env info ss w)) @ [0])
   \<and> (2 \<le> length (files s) \<and> map (\<lambda>f. pdfLoad env (fi_file f)) (files s) = map Some docs \<longrightarrow>
        reported (snd (handleMerge env now s w))
          = reported w @ 0 # phase_one (length (files s))
              @ (if opt_enabled (options s) then phase_two (length (concat docs)) else [100])
      \<and> list_all (\<lambda>v. v \<le> 50) (phase_one (length (files s)))
      \<and> last (phase_one (length (files s))) = 50
      \<and> list_all (\<lambda>v. 50 \<le> v \<and> v \<le> 100) (phase_two (length (concat docs)))
      \<and> ((opt_enabled (options s) \<longrightarrow> concat docs \<noteq> []) \<longrightarrow>
            last (reported (snd (handleMerge env now s w))) = 100
          \<and> mergeProgress (fst (handleMerge env now s w)) = 100)
      \<and> (opt_enabled (options s) \<and> concat docs = [] \<longrightarrow>
            last (reported (snd (handleMerge env now s w))) = 50
          \<and> mergeProgress (fst (handleMerge env now s w)) = 50))
   \<and> (splitMode ss = AllMode \<and> pdfLoad env (pm_file info) = Some src
        \<and> pm_pageCount info \<le> length src \<longrightarrow>
        reported (snd (split_job env info ss w))
          = reported w @ 0 # burst_reports (pm_pageCount info)
      \<and> (0 < pm_pageCount info \<longrightarrow>
            last (reported (snd (split_job env info ss w))) = 100
          \<and> progress (fst (split_job env info ss w)) = 100))"
proof (intro conjI impI; (elim conjE)?)
  show "\<exists>R. reported (snd (handleMerge env now s w)) = reported w @ R \<and> sorted R
         \<and> list_all (\<lambda>v. v \<le> 100) R"
    by (rule handleMerge_any_run)
  show "\<exists>R. reported (snd (split_job env info ss w)) = reported w @ R \<and> sorted R
         \<and> list_all (\<lambda>v. v \<le> 100) R"
    by (rule split_job_any_run)
  show "reported (snd (handleSplit env ss w)) = reported (snd (split_job env info ss w)) @ [0]"
    if "pdfInfo ss = Some info"
    by (rule handleSplit_reported [OF that])
next
  assume a: "2 \<le> length (files s)"
    "map (\<lambda>f. pdfLoad env (fi_file f)) (files s) = map Some docs"
  show "reported (snd (handleMerge env now s w))
          = reported w @ 0 # phase_one (length (files s))
              @ (if opt_enabled (options s) then phase_two (length (concat docs)) else [100])"
    by (rule merge_reported(1) [OF a])
  show "list_all (\<lambda>v. v \<le> 50) (phase_one (length (files s)))"
    by (rule phase_one_props(2))
  show "last (phase_one (length (files s))) = 50"
    using a(1) by (intro phase_one_props(3)) auto
  show "list_all (\<lambda>v. 50 \<le> v \<and> v \<le> 100) (phase_two (length (concat docs)))"
    by (rule phase_two_props(2))
  show "last (reported (snd (handleMerge env now s w))) = 100"
    "mergeProgress (fst (handleMerge env now s w)) = 100"
    if "opt_enabled (options s) \<longrightarrow> concat docs \<noteq> []"
    using merge_final(1) [OF a that] by simp_all
  show "last (reported (snd (handleMerge env now s w))) = 50"
    "mergeProgress (fst (handleMerge env now s w)) = 50"
    if "opt_enabled (options s)" "concat docs = []"
    using merge_final(2) [OF a] that by simp_all
next
  assume b: "splitMode ss = AllMode" "pdfLoad env (pm_file info) = Some src"
    "pm_pageCount info \<le> length src"
  show "reported (snd (split_job env info ss w))
          = reported w @ 0 # burst_reports (pm_pageCount info)"
    by (rule burst_job_reported(1) [OF b])
  show "last (reported (snd (split_job env info ss w))) = 100"
    "progress (fst (split_job env info ss w)) = 100"
    if "0 < pm_pageCount info"
    by (rule burst_final [OF b that])+
qed

text \<open>
  The theorem at concrete runs: two documents of 2 and 3 pages with and without numbering,
  a queue whose second file does not load, two documents without pages, and the burst of
  a document of 3 pages.
\<close>

theorem C8_progress_witness:
  "reported (snd (handleMerge ex_env 17 (ex_merge [2, 3] True) ex_world))
     = [0, 25, 50, 60, 70, 80, 90, 100]
   \<and> sorted (reported (snd (handleMerge ex_env 17 (ex_merge [2, 3] True) ex_world)))
   \<and> last (reported (snd (handleMerge ex_env 17 (ex_merge [2, 3] True) ex_world))) = 100
   \<and> mergeProgress (fst (handleMerge ex_env 17 (ex_merge [2, 3] True) ex_world)) = 100
   \<and> reported (snd (handleMerge ex_env 17 (ex_merge [2, 3] False) ex_world)) = [0, 25, 50, 100]
   \<and> reported (snd (handleMerge ex_env 17 (ex_merge [2, 99, 3] True) ex_world)) = [0, 17]
   \<and> sorted (reported (snd (handleMerge ex_env 17 (ex_merge [2, 99, 3] True) ex_world)))
   \<and> last (reported (snd (handleMerge ex_env 17 (ex_merge [0, 0] True) ex_world))) = 50
   \<and> reported (snd (split_job ex_env (ex_info 3 3) (ex_split (Some (ex_info 3 3)) AllMode [] []) ex_world))
     = [0, 33, 67, 100]
   \<and> sorted (reported (snd (split_job ex_env (ex_info 3 3) (ex_split (Some (ex_info 3 3)) AllMode [] []) ex_world)))
   \<and> last (reported (snd (split_job ex_env (ex_info 3 3) (ex_split (Some (ex_info 3 3)) AllMode [] []) ex_world))) = 100
   \<and> progress (fst (split_job ex_env (ex_info 3 3) (ex_split (Some (ex_info 3 3)) AllMode [] []) ex_world)) = 100
   \<and> reported (snd (handleSplit ex_env (ex_split (Some (ex_info 3 3)) AllMode [] []) ex_world))
     = reported (snd (split_job ex_env (ex_info 3 3) (ex_split (Some (ex_info 3 3)) AllMode [] []) ex_world)) @ [0]"
proof -
  let ?docs = "[map (ex_page 2) [0 ..< 2], map (ex_page 3) [0 ..< 3]]"
  let ?none = "[map (ex_page 0) [0 ..< 0], map (ex_page 0) [0 ..< 0]]"
  let ?src = "map (ex_page 3) [0 ..< 3]"
  let ?ss = "ex_split (Some (ex_info 3 3)) AllMode [] []"
  have two: "2 \<le> length (files (ex_merge [2, 3] True))"
    "2 \<le> length (files (ex_merge [0, 0] True))" by (simp_all add: ex_merge_def)
  have loads: "map (\<lambda>f. pdfLoad ex_env (fi_file f)) (files (ex_merge [2, 3] True)) = map Some ?docs"
    "map (\<lambda>f. pdfLoad ex_env (fi_file f)) (files (ex_merge [0, 0] True)) = map Some ?none"
    by (simp_all add: ex_merge_def ex_env_def ex_item_def ex_file_def)
  have ne: "opt_enabled (options (ex_merge [2, 3] True)) \<longrightarrow> concat ?docs \<noteq> []"
    "opt_enabled (options (ex_merge [0, 0] True)) \<and> concat ?none = []"
    by (simp_all add: upt_rec ex_merge_def)
  have sp: "pdfInfo ?ss = Some (ex_info 3 3)" "splitMode ?ss = AllMode"
    "pdfLoad ex_env (pm_file (ex_info 3 3)) = Some ?src"
    "0 < pm_pageCount (ex_info 3 3)" "pm_pageCount (ex_info 3 3) \<le> length ?src"
    by (simp_all add: ex_split_def ex_info_def ex_env_def ex_file_def)
  have ev: "reported (snd (handleMerge ex_env 17 (ex_merge [2, 3] True) ex_world))
     = [0, 25, 50, 60, 70, 80, 90, 100]"
    "reported (snd (handleMerge ex_env 17 (ex_merge [2, 3] False) ex_world)) = [0, 25, 50, 100]"
    "reported (snd (handleMerge ex_env 17 (ex_merge [2, 99, 3] True) ex_world)) = [0, 17]"
    "reported (snd (split_job ex_env (ex_info 3 3) ?ss ex_world)) = [0, 33, 67, 100]"
    by code_simp+
  have w: "reported ex_world = []" by (simp add: ex_world_def)
  from C8_progress [of ex_env 17 "ex_merge [2, 3] True" ex_world "ex_info 3 3" ?ss ?docs ?src]
  have a: "sorted (reported (snd (handleMerge ex_env 17 (ex_merge [2, 3] True) ex_world)))
      \<and> last (reported (snd (handleMerge ex_env 17 (ex_merge [2, 3] True) ex_world))) = 100
      \<and> mergeProgress (fst (handleMerge ex_env 17 (ex_merge [2, 3] True) ex_world)) = 100
      \<and> sorted (reported (snd (split_job ex_env (ex_info 3 3) ?ss ex_world)))
      \<and> last (reported (snd (split_job ex_env (ex_info 3 3) ?ss ex_world))) = 100
      \<and> progress (fst (split_job ex_env (ex_info 3 3) ?ss ex_world)) = 100
      \<and> reported (snd (handleSplit ex_env ?ss ex_world))
          = reported (snd (split_job ex_env (ex_info 3 3) ?ss ex_world)) @ [0]"
    using two(1) loads(1) ne(1) sp unfolding w by (elim conjE exE) simp
  from C8_progress [of ex_env 17 "ex_merge [2, 99, 3] True" ex_world "ex_info 3 3" ?ss ?docs ?src]
  have b: "sorted (reported (snd (handleMerge ex_env 17 (ex_merge [2, 99, 3] True) ex_world)))"
    unfolding w by (elim conjE exE) simp
  from C8_progress [of ex_env 17 "ex_merge [0, 0] True" ex_world "ex_info 3 3" ?ss ?none ?src]
  have c: "last (reported (snd (handleMerge ex_env 17 (ex_merge [0, 0] True) ex_world))) = 50"
    using two(2) loads(2) ne(2) by (elim conjE exE) simp
  from a b c ev show ?thesis by simp
qed

text \<open>
  Two runs that complete with a download and do not end at 100. The merge of two
  documents without pages, with numbering, stops at 50: the numbering loop has nothing
  to do, and only the branch without numbering sets 100; the download is the blank page
  that saving adds. And every burst is followed by the reset to 0, which the handler
  reports like any other value, so that the reported list of the whole handler is not
  non-decreasing.
\<close>

theorem C8_progress_counterexample:
  "reported (snd (handleMerge ex_env 17 (ex_merge [0, 0] True) ex_world)) = [0, 25, 50]
   \<and> mergeProgress (fst (handleMerge ex_env 17 (ex_merge [0, 0] True) ex_world)) = 50
   \<and> alerts (snd (handleMerge ex_env 17 (ex_merge [0, 0] True) ex_world)) = []
   \<and> downloads (snd (handleMerge ex_env 17 (ex_merge [0, 0] True) ex_world))
       = [(''Noobu_Merged_17.pdf'', PdfDoc [blankPage ex_env])]
   \<and> reported (snd (handleSplit ex_env (ex_split (Some (ex_info 3 3)) AllMode [] []) ex_world))
       = [0, 33, 67, 100, 0]
   \<and> \<not> sorted (reported (snd (handleSplit ex_env (ex_split (Some (ex_info 3 3)) AllMode [] []) ex_world)))
   \<and> error (fst (handleSplit ex_env (ex_split (Some (ex_info 3 3)) AllMode [] []) ex_world)) = None
   \<and> length (downloads (snd (handleSplit ex_env (ex_split (Some (ex_info 3 3)) AllMode [] []) ex_world))) = 1"
  by code_simp

section \<open>Proofs: releasing object URLs\<close>

text \<open>
  \<open>downloadBlob\<close> revokes the URL it creates; a successful merge leaves its URL alive.
\<close>

lemma downloadBlob_releases:
  "urlCount w \<notin> set (liveURLs w) \<Longrightarrow> liveURLs (downloadBlob b filename w) = liveURLs w"
  by (simp add: downloadBlob_eq)

lemma merge_keeps_url:
  assumes "2 \<le> length (files s)"
    and "map (\<lambda>f. pdfLoad env (fi_file f)) (files s) = map Some docs"
  shows "liveURLs (snd (handleMerge env now s w)) = liveURLs w @ [urlCount w]"
  unfolding handleMerge_success [OF assms] by simp

text \<open>
  Claim C9 at a concrete input. After one merge of two documents the object URL of the
  merged file is still alive, after a second merge two are; the claim says that every
  export releases its URL. The export of the split tool does (last two conjuncts).
\<close>

theorem C9_merge_url_not_revoked:
  "liveURLs (snd (handleMerge ex_env 17 (ex_merge [2, 3] False) ex_world)) = [0]
   \<and> liveURLs (snd (handleMerge ex_env 18 (ex_merge [2, 3] False)
        (snd (handleMerge ex_env 17 (ex_merge [2, 3] False) ex_world)))) = [0, 1]
   \<and> length (downloads (snd (handleSplit ex_env (ex_split (Some (ex_info 5 5)) RangeMode [0] ''1'') ex_world))) = 1
   \<and> liveURLs (snd (handleSplit ex_env (ex_split (Some (ex_info 5 5)) RangeMode [0] ''1'') ex_world)) = []"
  by code_simp

section \<open>Proofs: reordering the merge queue\<close>

lemma findIndex_Some: "findIndex p xs = Some i \<Longrightarrow> i < length xs \<and> p (xs ! i)"
  by (induction xs arbitrary: i) (auto split: if_splits)

lemma findIndex_None: "findIndex p xs = None \<longleftrightarrow> (\<forall>x \<in> set xs. \<not> p x)"
  by (induction xs) auto

lemma moveFile_absent:
  "findIndex (\<lambda>f. fi_id f = id') (files s) = None \<Longrightarrow> moveFile id' dir s = s"
  by (simp add: moveFile_def)

lemma moveFile_found:
  assumes "findIndex (\<lambda>f. fi_id f = id') (files s) = Some i"
  shows "moveFile id' Up s =
           (if 0 < i then s\<lparr>files := (files s)[i := files s ! (i - 1), i - 1 := files s ! i]\<rparr> else s)"
    and "moveFile id' Down s =
           (if i + 1 < length (files s)
            then s\<lparr>files := (files s)[i := files s ! (i + 1), i + 1 := files s ! i]\<rparr> else s)"
proof -
  have i: "i < length (files s)" using findIndex_Some [OF assms] by simp
  have up: "nat (int i - 1) = i - 1" by simp
  have down: "nat (int i + 1) = i + 1" by simp
  show "moveFile id' Up s =
           (if 0 < i then s\<lparr>files := (files s)[i := files s ! (i - 1), i - 1 := files s ! i]\<rparr> else s)"
    using i by (auto simp: moveFile_def assms Let_def up)
  show "moveFile id' Down s =
           (if i + 1 < length (files s)
            then s\<lparr>files := (files s)[i := files s ! (i + 1), i + 1 := files s ! i]\<rparr> else s)"
    using i by (auto simp: moveFile_def assms Let_def down)
qed

lemma moveFile_permutes:
  "mset (files (moveFile id' dir s)) = mset (files s) \<and> length (files (moveFile id' dir s)) = length (files s)"
proof (cases "findIndex (\<lambda>f. fi_id f = id') (files s)")
  case None
  then show ?thesis by (simp add: moveFile_absent)
next
  case (Some i)
  then have i: "i < length (files s)" using findIndex_Some by fastforce
  show ?thesis
  proof (cases dir)
    case Up
    with i show ?thesis
      by (simp add: moveFile_found(1) [OF Some] mset_swap)
  next
    case Down
    with i show ?thesis
      by (simp add: moveFile_found(2) [OF Some] mset_swap)
  qed
qed

lemma drag_reorder:
  assumes "d < length xs" "index < length xs"
  defines "zs \<equiv> splice_insert index (xs ! d) (splice_remove d xs)"
  shows "mset zs = mset xs" "length zs = length xs" "zs ! index = xs ! d"
    "splice_remove index zs = splice_remove d xs"
proof -
  let ?ys = "splice_remove d xs"
  have ylen: "length ?ys = length xs - 1" using assms(1) by (simp add: splice_remove_def)
  then have idx: "index \<le> length ?ys" using assms(2) by simp
  have xs: "xs = take d xs @ xs ! d # drop (Suc d) xs" using assms(1) by (rule id_take_nth_drop)
  have split: "mset (take index ?ys) + mset (drop index ?ys) = mset ?ys"
    by (simp only: mset_append [symmetric] append_take_drop_id)
  have "mset zs = mset (take index ?ys) + mset (drop index ?ys) + {#xs ! d#}"
    unfolding zs_def splice_insert_def by simp
  then have "mset zs = mset ?ys + {#xs ! d#}" by (simp only: split)
  also have "\<dots> = mset xs" by (subst (3) xs) (simp add: splice_remove_def)
  finally show "mset zs = mset xs" .
  show "length zs = length xs"
    using ylen idx assms(1) by (simp add: zs_def splice_insert_def)
  show "zs ! index = xs ! d"
    using idx by (simp add: zs_def splice_insert_def nth_append)
  show "splice_remove index zs = ?ys"
    using idx by (simp add: zs_def splice_insert_def splice_remove_def[of index])
qed

lemma onDragOverItem_noop:
  "draggedIndex s = None \<or> draggedIndex s = Some index \<Longrightarrow> onDragOverItem index s = Some s"
  by (auto simp: onDragOverItem_def)

lemma onDragOverItem_moves:
  assumes "draggedIndex s = Some d" "d \<noteq> index" "d < length (files s)"
  shows "onDragOverItem index s =
     Some (s\<lparr>draggedIndex := Some index,
            files := splice_insert index (files s ! d) (splice_remove d (files s))\<rparr>)"
  using assms by (simp add: onDragOverItem_def Let_def)

text \<open>
  Claim C10. \<open>moveFile\<close> keeps the length and the multiset of the queue; it changes
  nothing when the id is absent or the neighbour's position is outside the queue, and
  otherwise swaps the entry with its neighbour. \<open>onDragOverItem\<close> changes nothing when
  no drag is active or the entry is dragged over itself; otherwise, for positions of the
  queue, it keeps the length and the multiset, puts the dragged entry at the hovered
  position and leaves the other entries in their order (the queue without the dragged
  entry is the same before and after).
\<close>

theorem C10_reorder_permutes:
  "mset (files (moveFile id' dir s)) = mset (files s)
   \<and> length (files (moveFile id' dir s)) = length (files s)
   \<and> (findIndex (\<lambda>f. fi_id f = id') (files s) = None \<longrightarrow> moveFile id' dir s = s)
   \<and> (\<forall>i. findIndex (\<lambda>f. fi_id f = id') (files s) = Some i \<longrightarrow>
          moveFile id' Up s =
            (if 0 < i then s\<lparr>files := (files s)[i := files s ! (i - 1), i - 1 := files s ! i]\<rparr>
             else s)
        \<and> moveFile id' Down s =
            (if i + 1 < length (files s)
             then s\<lparr>files := (files s)[i := files s ! (i + 1), i + 1 := files s ! i]\<rparr>
             else s))
   \<and> (draggedIndex s = None \<or> draggedIndex s = Some index \<longrightarrow> onDragOverItem index s = Some s)
   \<and> (\<forall>d. draggedIndex s = Some d \<and> d \<noteq> index \<and> d < length (files s)
             \<and> index < length (files s) \<longrightarrow>
          (\<exists>s'. onDragOverItem index s = Some s'
             \<and> mset (files s') = mset (files s)
             \<and> length (files s') = length (files s)
             \<and> files s' ! index = files s ! d
             \<and> splice_remove index (files s') = splice_remove d (files s)
             \<and> draggedIndex s' = Some index))"
proof (intro conjI allI impI)
  show "mset (files (moveFile id' dir s)) = mset (files s)"
    and "length (files (moveFile id' dir s)) = length (files s)"
    using moveFile_permutes by blast+
  show "moveFile id' dir s = s" if "findIndex (\<lambda>f. fi_id f = id') (files s) = None"
    using that by (rule moveFile_absent)
  show "moveFile id' Up s =
            (if 0 < i then s\<lparr>files := (files s)[i := files s ! (i - 1), i - 1 := files s ! i]\<rparr>
             else s)"
    if "findIndex (\<lambda>f. fi_id f = id') (files s) = Some i" for i
    using that by (rule moveFile_found(1))
  show "moveFile id' Down s =
            (if i + 1 < length (files s)
             then s\<lparr>files := (files s)[i := files s ! (i + 1), i + 1 := files s ! i]\<rparr>
             else s)"
    if "findIndex (\<lambda>f. fi_id f = id') (files s) = Some i" for i
    using that by (rule moveFile_found(2))
  show "onDragOverItem index s = Some s" if "draggedIndex s = None \<or> draggedIndex s = Some index"
    using that by (rule onDragOverItem_noop)
  show "\<exists>s'. onDragOverItem index s = Some s'
             \<and> mset (files s') = mset (files s)
             \<and> length (files s') = length (files s)
             \<and> files s' ! index = files s ! d
             \<and> splice_remove index (files s') = splice_remove d (files s)
             \<and> draggedIndex s' = Some index"
    if "draggedIndex s = Some d \<and> d \<noteq> index \<and> d < length (files s) \<and> index < length (files s)"
    for d
  proof -
    from that have h: "draggedIndex s = Some d" "d \<noteq> index" "d < length (files s)"
      "index < length (files s)" by simp_all
    show ?thesis
      unfolding onDragOverItem_moves [OF h(1-3)]
      using drag_reorder [OF h(3,4)] by simp
  qed
qed

theorem C10_reorder_permutes_witness:
  "findIndex (\<lambda>f. fi_id f = ''3'') (files (ex_merge [2, 3, 4] False)) = Some 1
   \<and> moveFile ''3'' Up (ex_merge [2, 3, 4] False)
       = (ex_merge [2, 3, 4] False)\<lparr>files := [ex_item 3, ex_item 2, ex_item 4]\<rparr>
   \<and> moveFile ''4'' Down (ex_merge [2, 3, 4] False) = ex_merge [2, 3, 4] False
   \<and> moveFile ''7'' Down (ex_merge [2, 3, 4] False) = ex_merge [2, 3, 4] False
   \<and> onDragOverItem 1 (ex_merge [2, 3, 4] False) = Some (ex_merge [2, 3, 4] False)
   \<and> (\<exists>s'. onDragOverItem 2 (onDragStartItem 0 (ex_merge [2, 3, 4] False)) = Some s'
         \<and> mset (files s') = mset (files (ex_merge [2, 3, 4] False))
         \<and> files s' ! 2 = ex_item 2
         \<and> splice_remove 2 (files s') = [ex_item 3, ex_item 4])"
proof -
  let ?E = "ex_merge [2, 3, 4] False"
  let ?D = "onDragStartItem 0 ?E"
  have fs: "files ?E = [ex_item 2, ex_item 3, ex_item 4]" by (simp add: ex_merge_def)
  have fi: "findIndex (\<lambda>f. fi_id f = ''3'') (files ?E) = Some 1"
    "findIndex (\<lambda>f. fi_id f = ''4'') (files ?E) = Some 2"
    "findIndex (\<lambda>f. fi_id f = ''7'') (files ?E) = None"
    by code_simp+
  have up: "moveFile ''3'' Up ?E = ?E\<lparr>files := [ex_item 3, ex_item 2, ex_item 4]\<rparr>"
    using C10_reorder_permutes [of "''3''" Up ?E 1] fi(1) by (simp add: fs)
  have down: "moveFile ''4'' Down ?E = ?E"
    using C10_reorder_permutes [of "''4''" Down ?E 1] fi(2) by (simp add: fs)
  have absent: "moveFile ''7'' Down ?E = ?E"
    using C10_reorder_permutes [of "''7''" Down ?E 1] fi(3) by blast
  have noop: "onDragOverItem 1 ?E = Some ?E"
    using C10_reorder_permutes [of "''3''" Up ?E 1] by (simp add: ex_merge_def)
  have d: "draggedIndex ?D = Some 0 \<and> 0 \<noteq> (2::nat) \<and> 0 < length (files ?D) \<and> 2 < length (files ?D)"
    by (simp add: onDragStartItem_def fs)
  have fd: "files ?D = files ?E" by (simp add: onDragStartItem_def)
  from C10_reorder_permutes [of "''3''" Up ?D 2] d
  have "\<exists>s'. onDragOverItem 2 ?D = Some s'
             \<and> mset (files s') = mset (files ?D)
             \<and> length (files s') = length (files ?D)
             \<and> files s' ! 2 = files ?D ! 0
             \<and> splice_remove 2 (files s') = splice_remove 0 (files ?D)
             \<and> draggedIndex s' = Some 2"
    by blast
  then have drag: "\<exists>s'. onDragOverItem 2 ?D = Some s'
         \<and> mset (files s') = mset (files ?E)
         \<and> files s' ! 2 = ex_item 2
         \<and> splice_remove 2 (files s') = [ex_item 3, ex_item 4]"
    unfolding fd by (auto simp: fs splice_remove_def)
  from fi(1) up down absent noop drag show ?thesis by (intro conjI)
qed

end
